theory Spec2Isabelle
  imports Main "HOL-Library.AList" "HOL-Library.Word"
begin

unbundle bit_operations_syntax

section \<open>Asset ids, names and games (game_check.py)\<close>

text \<open>
  Python integers are unbounded, so an asset id is an \<open>int\<close>. The GUID of the
  remaster is represented by its 128-bit integer value. A \<open>NameOrAssetId\<close> is either a
  string or an integer; Python never identifies a string with an integer, and neither
  does the datatype.
\<close>

type_synonym asset_id = int
type_synonym asset_type = string
type_synonym byte = "8 word"
type_synonym bytes = "byte list"

datatype name_or_id = Name string | Id asset_id

datatype game = PRIME | ECHOES | CORRUPTION | PRIME_REMASTER

fun game_value :: "game \<Rightarrow> int" where
  "game_value PRIME = 1"
| "game_value ECHOES = 2"
| "game_value CORRUPTION = 3"
| "game_value PRIME_REMASTER = 10"

definition uses_asset_id_32 :: "game \<Rightarrow> bool" where
  "uses_asset_id_32 g = (game_value g \<le> game_value ECHOES)"

definition uses_asset_id_64 :: "game \<Rightarrow> bool" where
  "uses_asset_id_64 g = (g = CORRUPTION)"

definition invalid_asset_id :: "game \<Rightarrow> asset_id" where
  "invalid_asset_id g =
     (if uses_asset_id_32 g then 2 ^ 32 - 1
      else if uses_asset_id_64 g then 2 ^ 64 - 1
      else 0)"

text \<open>
  \<open>is_valid_asset_id\<close> compares its argument with \<open>0\<close> and with the invalid id; a
  string is equal to neither.
\<close>

fun is_valid_asset_id :: "game \<Rightarrow> name_or_id \<Rightarrow> bool" where
  "is_valid_asset_id g (Id a) =
     (if game_value g \<le> game_value ECHOES \<and> a = 0 then False
      else a \<noteq> invalid_asset_id g)"
| "is_valid_asset_id g (Name s) = True"

definition mlvl_dependencies_to_ignore :: "game \<Rightarrow> name_or_id list" where
  "mlvl_dependencies_to_ignore g = (if g = ECHOES then [Id 0x7b2ea5b1] else [])"

section \<open>Python's \<open>str\<close> on an integer\<close>

definition digit_char :: "nat \<Rightarrow> char" where
  "digit_char d = char_of (48 + d)"

function str_nat :: "nat \<Rightarrow> string" where
  "str_nat n = (if n < 10 then [digit_char n] else str_nat (n div 10) @ [digit_char (n mod 10)])"
  by pat_completeness auto
termination
  by (relation "measure id") auto

declare str_nat.simps [simp del]

definition str_int :: "int \<Rightarrow> string" where
  "str_int i = (if i < 0 then CHR ''-'' # str_nat (nat (- i)) else str_nat (nat i))"

fun str_of :: "name_or_id \<Rightarrow> string" where
  "str_of (Name s) = s"
| "str_of (Id a) = str_int a"

text \<open>Reading a decimal numeral back: the left inverse of \<open>str_nat\<close>.\<close>

definition digit_val :: "char \<Rightarrow> nat" where
  "digit_val c = of_char c - 48"

definition nat_of_digits :: "string \<Rightarrow> nat" where
  "nat_of_digits s = foldl (\<lambda>acc c. 10 * acc + digit_val c) 0 s"

definition int_of_str :: "string \<Rightarrow> int" where
  "int_of_str s =
     (case s of
        [] \<Rightarrow> 0
      | c # cs \<Rightarrow> if c = CHR ''-'' then - int (nat_of_digits cs) else int (nat_of_digits s))"

lemma digit_val_digit_char: "d < 10 \<Longrightarrow> digit_val (digit_char d) = d"
  by (simp add: digit_val_def digit_char_def)

lemma nat_of_digits_snoc:
  "nat_of_digits (s @ [c]) = 10 * nat_of_digits s + digit_val c"
  by (simp add: nat_of_digits_def)

lemma nat_of_digits_str_nat: "nat_of_digits (str_nat n) = n"
proof (induction n rule: str_nat.induct)
  case (1 n)
  show ?case
  proof (cases "n < 10")
    case True
    then show ?thesis
      by (subst str_nat.simps) (simp add: nat_of_digits_def digit_val_digit_char)
  next
    case False
    then have "nat_of_digits (str_nat (n div 10)) = n div 10"
      using "1.IH" by simp
    with False show ?thesis
      by (subst str_nat.simps) (simp add: nat_of_digits_snoc digit_val_digit_char)
  qed
qed

lemma str_nat_not_Nil: "str_nat n \<noteq> []"
  by (subst str_nat.simps) simp

lemma hd_str_nat_not_minus: "hd (str_nat n) \<noteq> CHR ''-''"
proof (induction n rule: str_nat.induct)
  case (1 n)
  show ?case
  proof (cases "n < 10")
    case True
    then have "(of_char (digit_char n) :: nat) = 48 + n"
      by (simp add: digit_char_def)
    then have "digit_char n \<noteq> CHR ''-''"
      by auto
    with True show ?thesis
      by (subst str_nat.simps) simp
  next
    case False
    with "1.IH" show ?thesis
      by (subst str_nat.simps) (simp add: str_nat_not_Nil)
  qed
qed

lemma int_of_str_str_int: "int_of_str (str_int i) = i"
proof (cases "i < 0")
  case True
  then show ?thesis
    by (simp add: int_of_str_def str_int_def nat_of_digits_str_nat)
next
  case False
  obtain c cs where s: "str_nat (nat i) = c # cs"
    using str_nat_not_Nil [of "nat i"] by (cases "str_nat (nat i)") auto
  have "c \<noteq> CHR ''-''"
    using hd_str_nat_not_minus [of "nat i"] s by simp
  moreover have "nat_of_digits (c # cs) = nat i"
    using nat_of_digits_str_nat [of "nat i"] s by simp
  ultimately show ?thesis
    using False s by (simp add: int_of_str_def str_int_def)
qed

lemma inj_str_int: "inj str_int"
  by (rule inj_on_inverseI [where g = int_of_str]) (rule int_of_str_str_int)

section \<open>Resources, dependencies, errors\<close>

record raw_resource =
  rtype :: asset_type
  rdata :: bytes

record dependency =
  dep_type :: asset_type
  dep_id :: name_or_id
  exclude_for_mlvl :: bool

text \<open>
  The exceptions the modelled code raises. \<open>UnknownAssetId\<close> carries the id and, where
  the code passes it, the name the caller used. \<open>CollaboratorError\<close> stands for whatever
  a codec outside this development raises.
\<close>

datatype error =
    ValueError string
  | UnknownAssetId name_or_id "name_or_id option"
  | KeyError
  | IndexError
  | AttributeError
  | RecursionError
  | RuntimeError string
  | FileNotFoundError string
  | StreamError
  | ConstError
  | FormatFieldError
  | ConstructError
  | CollaboratorError string

text \<open>
  A \<open>Resource\<close> handed to the manager is either a \<open>RawResource\<close> or a typed
  \<open>BaseResource\<close>; the latter is represented by its \<open>resource_type()\<close> and by what its
  \<open>build()\<close> returns or raises.
\<close>

datatype resource = Raw raw_resource | Typed asset_type "error + bytes"

section \<open>PAK archives and file providers\<close>

text \<open>
  Modelled from the spec: the PAK codec (formats/pak.py) is not among the sources. A PAK
  is its ordered list of resource entries; the header parse yields each entry's id and
  type; \<open>get_asset\<close> returns the first body with the id or nothing; \<open>replace_asset\<close>
  keeps the entry order, \<open>remove_asset\<close> elides the entries and \<open>add_asset\<close> appends.
\<close>

type_synonym pak = "(asset_id \<times> raw_resource) list"

definition pak_get_asset :: "pak \<Rightarrow> asset_id \<Rightarrow> raw_resource option" where
  "pak_get_asset pak a = map_of pak a"

definition pak_replace_asset :: "pak \<Rightarrow> asset_id \<Rightarrow> raw_resource \<Rightarrow> pak" where
  "pak_replace_asset pak a raw = map (\<lambda>(i, r). if i = a then (i, raw) else (i, r)) pak"

definition pak_remove_asset :: "pak \<Rightarrow> asset_id \<Rightarrow> pak" where
  "pak_remove_asset pak a = filter (\<lambda>(i, r). i \<noteq> a) pak"

definition pak_add_asset :: "pak \<Rightarrow> asset_id \<Rightarrow> raw_resource \<Rightarrow> pak" where
  "pak_add_asset pak a raw = pak @ [(a, raw)]"

text \<open>
  What a provider shows of a directory tree or of a disc's data partition: the decoded
  \<open>custom_names.json\<close> when the file is there, and the \<open>*.pak\<close> files in the order
  \<open>rglob\<close> yields them. A file system maps a root directory to its tree, so that a
  save into the provider's own root is seen by the provider afterwards, and a save
  elsewhere is not.
\<close>

record tree =
  custom_names_json :: "(string \<times> asset_id) list option"
  pak_files :: "(string \<times> pak) list"

type_synonym filesystem = "string \<Rightarrow> tree"

definition tree_files :: "tree \<Rightarrow> string list" where
  "tree_files t =
     (case custom_names_json t of None \<Rightarrow> [] | Some _ \<Rightarrow> [''custom_names.json''])
     @ map fst (pak_files t)"

record disc =
  data_partition :: "tree option"

record iso_file_provider =
  iso_disc :: disc
  iso_data :: tree
  iso_all_files :: "string list"
  iso_path :: string

text \<open>
  \<open>IsoFileProvider.__init__\<close>. The disc library \<open>nod\<close> is external:
  \<open>open_disc_from_image\<close> is a parameter that returns nothing or a pair of the disc and
  a flag.
\<close>

definition IsoFileProvider_init ::
  "(string \<Rightarrow> (disc \<times> bool) option) \<Rightarrow> string \<Rightarrow> error + iso_file_provider" where
  "IsoFileProvider_init open_disc_from_image path =
     (case open_disc_from_image path of
        None \<Rightarrow> Inl (ValueError (path @ '' is not a GC/Wii ISO''))
      | Some result \<Rightarrow>
          (case data_partition (fst result) of
             None \<Rightarrow> Inl (ValueError (path @ '' does not have data''))
           | Some d \<Rightarrow>
               Inr \<lparr>iso_disc = fst result, iso_data = d,
                    iso_all_files = tree_files d, iso_path = path\<rparr>))"

datatype file_provider = PathFileProvider string | IsoFileProvider iso_file_provider

fun provider_tree :: "filesystem \<Rightarrow> file_provider \<Rightarrow> tree" where
  "provider_tree fs (PathFileProvider root) = fs root"
| "provider_tree fs (IsoFileProvider ip) = iso_data ip"

section \<open>The asset manager's state (asset_manager.py)\<close>

text \<open>
  Python dictionaries keep insertion order and are iterated in it, so each is an
  association list read with \<open>map_of\<close> and written with \<open>AList.update\<close> (in place for
  a key that is there, at the end for a new one). A Python set is a list without
  duplicates.
\<close>

record manager =
  provider :: file_provider
  target_game :: game
  all_paks :: "string list"
  paks_for_asset_id :: "(asset_id \<times> string list) list"
  types_for_asset_id :: "(asset_id \<times> asset_type) list"
  ensured_asset_ids :: "(string \<times> asset_id list) list"
  modified_resources :: "(asset_id \<times> raw_resource option) list"
  in_memory_paks :: "(string \<times> pak) list"
  custom_asset_ids :: "(string \<times> asset_id) list"
  next_generated_id :: int
  cached_dependencies :: "(name_or_id \<times> dependency list) list"
  cached_ancs_per_char_dependencies :: "(asset_id \<times> (int \<times> dependency list) list) list"
  sound_id_to_agsc :: "(int \<times> asset_id option) list"

text \<open>
  The collaborators of the manager that are not among the sources, as parameters: the
  hash that turns a name into an id, the cheat table's scanner, and the registry of
  typed parsers with their dependency iterators.
\<close>

record env =
  name_hash :: "game \<Rightarrow> string \<Rightarrow> asset_id"
  should_cheat_asset :: "asset_type \<Rightarrow> bool"
  get_cheated_dependencies :: "raw_resource option \<Rightarrow> manager \<Rightarrow> error + dependency list"
  has_resource_type :: "asset_type \<Rightarrow> bool"
  has_dependencies :: "asset_type \<Rightarrow> game \<Rightarrow> bool"
  parsed_dependencies_for :: "asset_type \<Rightarrow> bytes \<Rightarrow> manager \<Rightarrow> error + dependency list"

definition set_add :: "'a \<Rightarrow> 'a list \<Rightarrow> 'a list" where
  "set_add x xs = (if x \<in> set xs then xs else xs @ [x])"

text \<open>
  \<open>base_resource.resolve_asset_id\<close>: an integer is an asset id already, a name is
  hashed.
\<close>

fun base_resolve_asset_id :: "env \<Rightarrow> game \<Rightarrow> name_or_id \<Rightarrow> asset_id" where
  "base_resolve_asset_id ev g (Id a) = a"
| "base_resolve_asset_id ev g (Name s) = name_hash ev g s"

text \<open>\<open>AssetManager._resolve_asset_id\<close>: the alias table is asked for \<open>str(value)\<close> first.\<close>

definition resolve_asset_id :: "env \<Rightarrow> manager \<Rightarrow> name_or_id \<Rightarrow> asset_id" where
  "resolve_asset_id ev m v =
     (case map_of (custom_asset_ids m) (str_of v) of
        Some a \<Rightarrow> a
      | None \<Rightarrow> base_resolve_asset_id ev (target_game m) v)"

definition add_pak_name_for_asset_id :: "manager \<Rightarrow> asset_id \<Rightarrow> string \<Rightarrow> manager" where
  "add_pak_name_for_asset_id m a pak_name =
     m\<lparr>paks_for_asset_id :=
         AList.update a
           (set_add pak_name (case map_of (paks_for_asset_id m) a of None \<Rightarrow> [] | Some s \<Rightarrow> s))
           (paks_for_asset_id m)\<rparr>"

definition scan_pak_header :: "tree \<Rightarrow> string \<Rightarrow> manager \<Rightarrow> manager" where
  "scan_pak_header t name m =
     fold (\<lambda>entry m'.
             (add_pak_name_for_asset_id m' (fst entry) name)
               \<lparr>types_for_asset_id :=
                   AList.update (fst entry) (rtype (snd entry)) (types_for_asset_id m')\<rparr>)
          (case map_of (pak_files t) name of None \<Rightarrow> [] | Some pak \<Rightarrow> pak)
          (m\<lparr>ensured_asset_ids := AList.update name [] (ensured_asset_ids m)\<rparr>)"

definition update_headers :: "filesystem \<Rightarrow> manager \<Rightarrow> manager" where
  "update_headers fs m =
     (let t = provider_tree fs (provider m);
          m1 = m\<lparr>ensured_asset_ids := [], paks_for_asset_id := [], types_for_asset_id := [],
                 custom_asset_ids :=
                   (case custom_names_json t of
                      None \<Rightarrow> []
                    | Some items \<Rightarrow> fold (\<lambda>item. AList.update (fst item) (snd item)) items []),
                 all_paks := map fst (pak_files t)\<rparr>
      in fold (scan_pak_header t) (all_paks m1) m1)"

text \<open>
  \<open>AssetManager.__init__\<close>, up to the audio-group table that the constructor builds
  for Echoes: that table only reads assets and fills \<open>sound_id_to_agsc\<close>.
\<close>

definition AssetManager_init :: "filesystem \<Rightarrow> file_provider \<Rightarrow> game \<Rightarrow> manager" where
  "AssetManager_init fs prov g =
     update_headers fs
       \<lparr>provider = prov, target_game = g, all_paks = [], paks_for_asset_id = [],
        types_for_asset_id = [], ensured_asset_ids = [], modified_resources = [],
        in_memory_paks = [], custom_asset_ids = [], next_generated_id = 0xFFFF0000,
        cached_dependencies = [], cached_ancs_per_char_dependencies = [],
        sound_id_to_agsc = []\<rparr>"

definition all_asset_ids :: "manager \<Rightarrow> asset_id list" where
  "all_asset_ids m = map fst (paks_for_asset_id m)"

definition find_paks :: "env \<Rightarrow> manager \<Rightarrow> name_or_id \<Rightarrow> error + string list" where
  "find_paks ev m v =
     (let a = resolve_asset_id ev m v
      in case map_of (paks_for_asset_id m) a of
           Some paks \<Rightarrow> Inr paks
         | None \<Rightarrow> Inl (UnknownAssetId (Id a) (Some v)))"

definition does_asset_exists :: "env \<Rightarrow> manager \<Rightarrow> name_or_id \<Rightarrow> bool" where
  "does_asset_exists ev m v =
     (let a = resolve_asset_id ev m v
      in case map_of (modified_resources m) a of
           Some r \<Rightarrow> r \<noteq> None
         | None \<Rightarrow> map_of (paks_for_asset_id m) a \<noteq> None)"

definition get_asset_type :: "env \<Rightarrow> manager \<Rightarrow> name_or_id \<Rightarrow> error + asset_type" where
  "get_asset_type ev m v =
     (let a = resolve_asset_id ev m v
      in case map_of (modified_resources m) a of
           Some None \<Rightarrow> Inl (ValueError (''Deleted asset_id: '' @ str_of v))
         | Some (Some r) \<Rightarrow> Inr (rtype r)
         | None \<Rightarrow>
             (case map_of (types_for_asset_id m) a of
                Some t \<Rightarrow> Inr t
              | None \<Rightarrow> Inl (UnknownAssetId (Id a) (Some v))))"

definition get_pak :: "filesystem \<Rightarrow> manager \<Rightarrow> string \<Rightarrow> (error + pak) \<times> manager" where
  "get_pak fs m pak_name =
     (if map_of (ensured_asset_ids m) pak_name = None
      then (Inl (ValueError (''Unknown pak_name: '' @ pak_name)), m)
      else case map_of (in_memory_paks m) pak_name of
             Some pak \<Rightarrow> (Inr pak, m)
           | None \<Rightarrow>
               (case map_of (pak_files (provider_tree fs (provider m))) pak_name of
                  None \<Rightarrow> (Inl (FileNotFoundError pak_name), m)
                | Some pak \<Rightarrow>
                    (Inr pak, m\<lparr>in_memory_paks := AList.update pak_name pak (in_memory_paks m)\<rparr>)))"

text \<open>
  The loop of \<open>get_raw_asset\<close> over the PAKs that hold the id; falling off its end,
  the Python returns \<open>None\<close>.
\<close>

fun get_raw_asset_loop ::
  "filesystem \<Rightarrow> manager \<Rightarrow> asset_id \<Rightarrow> string list \<Rightarrow> (error + raw_resource option) \<times> manager" where
  "get_raw_asset_loop fs m a [] = (Inr None, m)"
| "get_raw_asset_loop fs m a (pak_name # rest) =
     (case get_pak fs m pak_name of
        (Inl e, m') \<Rightarrow> (Inl e, m')
      | (Inr pak, m') \<Rightarrow>
          (case pak_get_asset pak a of
             Some r \<Rightarrow> (Inr (Some r), m')
           | None \<Rightarrow> get_raw_asset_loop fs m' a rest))"

definition get_raw_asset ::
  "env \<Rightarrow> filesystem \<Rightarrow> manager \<Rightarrow> name_or_id \<Rightarrow> (error + raw_resource option) \<times> manager" where
  "get_raw_asset ev fs m v =
     (let a = resolve_asset_id ev m v
      in case map_of (modified_resources m) a of
           Some None \<Rightarrow> (Inl (ValueError (''Deleted asset_id: '' @ str_of v)), m)
         | Some (Some r) \<Rightarrow> (Inr (Some r), m)
         | None \<Rightarrow>
             (case map_of (paks_for_asset_id m) a of
                None \<Rightarrow> (Inl (UnknownAssetId (Id a) (Some v)), m)
              | Some paks \<Rightarrow> get_raw_asset_loop fs m a paks))"

section \<open>The dependency engine\<close>

text \<open>
  The two generators run to their end here. \<open>_get_dependencies_for_asset\<close> computes and
  caches the whole tuple before its first \<open>yield\<close>, so a consumer that works between
  the yields cannot change what is yielded.
\<close>

definition scan_dependencies ::
  "env \<Rightarrow> filesystem \<Rightarrow> manager \<Rightarrow> name_or_id \<Rightarrow> asset_type \<Rightarrow> (error + dependency list) \<times> manager" where
  "scan_dependencies ev fs m v asset_type =
     (if should_cheat_asset ev asset_type then
        (case get_raw_asset ev fs m v of
           (Inl e, m') \<Rightarrow> (Inl e, m')
         | (Inr raw, m') \<Rightarrow> (get_cheated_dependencies ev raw m', m'))
      else if has_resource_type ev asset_type then
        (if has_dependencies ev asset_type (target_game m) then
           (case get_raw_asset ev fs m v of
              (Inl e, m') \<Rightarrow> (Inl e, m')
            | (Inr None, m') \<Rightarrow> (Inl AttributeError, m')
            | (Inr (Some raw), m') \<Rightarrow> (parsed_dependencies_for ev asset_type (rdata raw) m', m'))
         else (Inr [], m))
      else (Inr [], m))"

definition inner_get_dependencies_for_asset ::
  "env \<Rightarrow> filesystem \<Rightarrow> manager \<Rightarrow> name_or_id \<Rightarrow> bool \<Rightarrow> (error + dependency list) \<times> manager" where
  "inner_get_dependencies_for_asset ev fs m v must_exist =
     (if \<not> is_valid_asset_id (target_game m) v then (Inr [], m)
      else if \<not> does_asset_exists ev m v then
        (if must_exist then (Inl (UnknownAssetId v None), m) else (Inr [], m))
      else
        (case get_asset_type ev m v of
           Inl e \<Rightarrow> (Inl e, m)
         | Inr asset_type \<Rightarrow>
             (case map_of (cached_dependencies m) v of
                Some deps \<Rightarrow>
                  (Inr (deps @ [\<lparr>dep_type = asset_type, dep_id = v, exclude_for_mlvl = False\<rparr>]), m)
              | None \<Rightarrow>
                  (case scan_dependencies ev fs m v asset_type of
                     (Inl e, m') \<Rightarrow> (Inl e, m')
                   | (Inr deps, m') \<Rightarrow>
                       (Inr (deps @ [\<lparr>dep_type = asset_type, dep_id = v, exclude_for_mlvl = False\<rparr>]),
                        m'\<lparr>cached_dependencies := AList.update v deps (cached_dependencies m')\<rparr>)))))"

definition get_dependencies_for_asset ::
  "env \<Rightarrow> filesystem \<Rightarrow> manager \<Rightarrow> name_or_id \<Rightarrow> bool \<Rightarrow> (error + dependency list) \<times> manager" where
  "get_dependencies_for_asset ev fs m v must_exist =
     (let override = (v \<in> set (mlvl_dependencies_to_ignore (target_game m)))
      in case inner_get_dependencies_for_asset ev fs m v must_exist of
           (Inl e, m') \<Rightarrow> (Inl e, m')
         | (Inr deps, m') \<Rightarrow>
             (Inr (map (\<lambda>it. \<lparr>dep_type = dep_type it, dep_id = dep_id it,
                               exclude_for_mlvl = (exclude_for_mlvl it \<or> override)\<rparr>) deps),
              m'))"

section \<open>Fresh ids\<close>

lemma finite_existing_ids: "finite {r. does_asset_exists ev m (Id r)}"
proof -
  let ?C = "str_int -` fst ` set (custom_asset_ids m)"
  let ?M = "fst ` set (modified_resources m)"
  let ?P = "fst ` set (paks_for_asset_id m)"
  have "finite ?C"
    by (rule finite_vimageI [OF _ inj_str_int]) simp
  then have fin: "finite (?C \<union> ?M \<union> ?P)"
    by simp
  have "{r. does_asset_exists ev m (Id r)} \<subseteq> ?C \<union> ?M \<union> ?P"
  proof
    fix r
    assume "r \<in> {r. does_asset_exists ev m (Id r)}"
    then have ex: "does_asset_exists ev m (Id r)"
      by simp
    show "r \<in> ?C \<union> ?M \<union> ?P"
    proof (cases "map_of (custom_asset_ids m) (str_int r)")
      case (Some a)
      then have "str_int r \<in> fst ` set (custom_asset_ids m)"
        by (metis map_of_eq_None_iff option.distinct(1))
      then show ?thesis
        by simp
    next
      case None
      then have res: "resolve_asset_id ev m (Id r) = r"
        by (simp add: resolve_asset_id_def)
      show ?thesis
      proof (cases "map_of (modified_resources m) r")
        case (Some x)
        then have "r \<in> ?M"
          by (metis map_of_eq_None_iff option.distinct(1))
        then show ?thesis
          by simp
      next
        case None
        with ex res have "map_of (paks_for_asset_id m) r \<noteq> None"
          by (simp add: does_asset_exists_def)
        then have "r \<in> ?P"
          by (simp add: map_of_eq_None_iff)
        then show ?thesis
          by simp
      qed
    qed
  qed
  with fin show ?thesis
    by (rule rev_finite_subset)
qed

text \<open>The \<open>while\<close> loop of \<open>generate_asset_id\<close>.\<close>

function generate_asset_id_loop :: "env \<Rightarrow> manager \<Rightarrow> int \<Rightarrow> int" where
  "generate_asset_id_loop ev m result =
     (if does_asset_exists ev m (Id result) then generate_asset_id_loop ev m (result + 1)
      else result)"
  by pat_completeness auto
termination
proof (relation "measure (\<lambda>(ev, m, r). card {r'. r \<le> r' \<and> does_asset_exists ev m (Id r')})")
  show "wf (measure (\<lambda>(ev, m, r). card {r'. r \<le> r' \<and> does_asset_exists ev m (Id r')}))"
    by simp
next
  fix ev :: env and m :: manager and result :: int
  assume ex: "does_asset_exists ev m (Id result)"
  let ?A = "{r'. result + 1 \<le> r' \<and> does_asset_exists ev m (Id r')}"
  let ?B = "{r'. result \<le> r' \<and> does_asset_exists ev m (Id r')}"
  have "finite ?B"
    using finite_existing_ids [of ev m] by simp
  moreover have "?A \<subset> ?B"
  proof (rule psubsetI)
    show "?A \<subseteq> ?B"
      by auto
    have "result \<in> ?B" "result \<notin> ?A"
      using ex by simp_all
    then show "?A \<noteq> ?B"
      by metis
  qed
  ultimately have "card ?A < card ?B"
    by (rule psubset_card_mono)
  then show "((ev, m, result + 1), (ev, m, result))
      \<in> measure (\<lambda>(ev, m, r). card {r'. r \<le> r' \<and> does_asset_exists ev m (Id r')})"
    by simp
qed

declare generate_asset_id_loop.simps [simp del]

definition generate_asset_id :: "env \<Rightarrow> manager \<Rightarrow> int \<times> manager" where
  "generate_asset_id ev m =
     (let result = generate_asset_id_loop ev m (next_generated_id m)
      in (result, m\<lparr>next_generated_id := result + 1\<rparr>))"

section \<open>Mutations\<close>

text \<open>
  A mutating method returns the exception it raised, if any, together with the state it
  left behind: what was written before a \<open>raise\<close> stays written.
\<close>

definition register_custom_asset_name ::
  "env \<Rightarrow> manager \<Rightarrow> string \<Rightarrow> asset_id \<Rightarrow> error option \<times> manager" where
  "register_custom_asset_name ev m name a =
     (if does_asset_exists ev m (Id a) then
        (Some (ValueError (str_int a @ '' ('' @ name @ '') already exists'')), m)
      else if map_of (custom_asset_ids m) name \<noteq> None \<and> map_of (custom_asset_ids m) name \<noteq> Some a then
        (Some (ValueError (name @ '' already exists'')), m)
      else (None, m\<lparr>custom_asset_ids := AList.update name a (custom_asset_ids m)\<rparr>))"

definition replace_asset ::
  "env \<Rightarrow> manager \<Rightarrow> name_or_id \<Rightarrow> resource \<Rightarrow> (error + asset_id) \<times> manager" where
  "replace_asset ev m v new_data =
     (let original_name = str_of v;
          a = resolve_asset_id ev m v
      in if \<not> does_asset_exists ev m (Id a) then
           (Inl (UnknownAssetId (Id a) (Some (Name original_name))), m)
         else
           (case (case new_data of
                    Raw r \<Rightarrow> Inr r
                  | Typed t built \<Rightarrow>
                      (case built of Inl e \<Rightarrow> Inl e | Inr d \<Rightarrow> Inr \<lparr>rtype = t, rdata = d\<rparr>)) of
              Inl e \<Rightarrow> (Inl e, m)
            | Inr raw_asset \<Rightarrow>
                (Inr a, m\<lparr>modified_resources := AList.update a (Some raw_asset) (modified_resources m)\<rparr>)))"

definition delete_asset :: "env \<Rightarrow> manager \<Rightarrow> name_or_id \<Rightarrow> error option \<times> manager" where
  "delete_asset ev m v =
     (let a = resolve_asset_id ev m v
      in if \<not> does_asset_exists ev m (Id a) then (Some (UnknownAssetId (Id a) (Some v)), m)
         else
           (None,
            m\<lparr>modified_resources := AList.update a None (modified_resources m),
              ensured_asset_ids :=
                map (\<lambda>(pak_name, ensured_ids). (pak_name, removeAll a ensured_ids))
                  (ensured_asset_ids m)\<rparr>))"

text \<open>
  \<open>ensure_present\<close> calls itself for every dependency. Python bounds the depth of the
  calls and raises \<open>RecursionError\<close> beyond it; the bound is the first argument after
  the file system.
\<close>

fun ensure_present ::
  "env \<Rightarrow> filesystem \<Rightarrow> nat \<Rightarrow> manager \<Rightarrow> string \<Rightarrow> name_or_id \<Rightarrow> error option \<times> manager"
and ensure_present_deps ::
  "env \<Rightarrow> filesystem \<Rightarrow> nat \<Rightarrow> manager \<Rightarrow> string \<Rightarrow> asset_id \<Rightarrow> dependency list \<Rightarrow> error option \<times> manager"
where
  "ensure_present ev fs 0 m pak_name v = (Some RecursionError, m)"
| "ensure_present ev fs (Suc depth) m pak_name v =
     (if map_of (ensured_asset_ids m) pak_name = None then
        (Some (ValueError (''Unknown pak_name: '' @ pak_name)), m)
      else
        (let a = resolve_asset_id ev m v
         in if \<not> does_asset_exists ev m (Id a) then (Some (UnknownAssetId (Id a) (Some v)), m)
            else
              (case map_of (paks_for_asset_id m) a of
                 None \<Rightarrow> (Some KeyError, m)
               | Some paks \<Rightarrow>
                   (let m1 =
                          (if pak_name \<notin> set paks then
                             m\<lparr>ensured_asset_ids :=
                                 AList.map_entry pak_name (set_add a) (ensured_asset_ids m)\<rparr>
                           else m)
                    in case get_dependencies_for_asset ev fs m1 (Id a) False of
                         (Inl e, m2) \<Rightarrow> (Some e, m2)
                       | (Inr deps, m2) \<Rightarrow> ensure_present_deps ev fs depth m2 pak_name a deps))))"
| "ensure_present_deps ev fs depth m pak_name a [] = (None, m)"
| "ensure_present_deps ev fs depth m pak_name a (dep # deps) =
     (if dep_id dep = Id a then ensure_present_deps ev fs depth m pak_name a deps
      else
        (case ensure_present ev fs depth m pak_name (dep_id dep) of
           (Some e, m') \<Rightarrow> (Some e, m')
         | (None, m') \<Rightarrow> ensure_present_deps ev fs depth m' pak_name a deps))"

fun ensure_present_all ::
  "env \<Rightarrow> filesystem \<Rightarrow> nat \<Rightarrow> manager \<Rightarrow> string list \<Rightarrow> asset_id \<Rightarrow> error option \<times> manager" where
  "ensure_present_all ev fs depth m [] a = (None, m)"
| "ensure_present_all ev fs depth m (pak_name # rest) a =
     (case ensure_present ev fs depth m pak_name (Id a) of
        (Some e, m') \<Rightarrow> (Some e, m')
      | (None, m') \<Rightarrow> ensure_present_all ev fs depth m' rest a)"

definition add_new_asset ::
  "env \<Rightarrow> filesystem \<Rightarrow> nat \<Rightarrow> manager \<Rightarrow> name_or_id \<Rightarrow> resource \<Rightarrow> string list \<Rightarrow> error option \<times> manager" where
  "add_new_asset ev fs depth m name new_data in_paks =
     (let a = resolve_asset_id ev m name
      in if does_asset_exists ev m (Id a) then
           (Some (ValueError (str_of name @ '' already exists'')), m)
         else
           (let m1 = m\<lparr>custom_asset_ids := AList.update (str_of name) a (custom_asset_ids m),
                       paks_for_asset_id := AList.update a [] (paks_for_asset_id m)\<rparr>
            in case replace_asset ev m1 name new_data of
                 (Inl e, m2) \<Rightarrow> (Some e, m2)
               | (Inr _, m2) \<Rightarrow> ensure_present_all ev fs depth m2 in_paks a))"

section \<open>Saving\<close>

text \<open>The PAKs touched by the modification map: a \<open>KeyError\<close> for an id without an index entry.\<close>

fun collect_modified_paks ::
  "manager \<Rightarrow> asset_id list \<Rightarrow> string list \<Rightarrow> error + string list" where
  "collect_modified_paks m [] modified_paks = Inr modified_paks"
| "collect_modified_paks m (a # rest) modified_paks =
     (case map_of (paks_for_asset_id m) a of
        None \<Rightarrow> Inl KeyError
      | Some paks \<Rightarrow> collect_modified_paks m rest (fold set_add paks modified_paks))"

fun load_paks :: "filesystem \<Rightarrow> manager \<Rightarrow> string list \<Rightarrow> error option \<times> manager" where
  "load_paks fs m [] = (None, m)"
| "load_paks fs m (pak_name # rest) =
     (case get_pak fs m pak_name of
        (Inl e, m') \<Rightarrow> (Some e, m')
      | (Inr _, m') \<Rightarrow> load_paks fs m' rest)"

text \<open>The bodies of all ensured ids, each fetched once.\<close>

fun read_asset_ids_to_copy ::
  "env \<Rightarrow> filesystem \<Rightarrow> manager \<Rightarrow> asset_id list \<Rightarrow> (asset_id \<times> raw_resource option) list \<Rightarrow>
   (error + (asset_id \<times> raw_resource option) list) \<times> manager" where
  "read_asset_ids_to_copy ev fs m [] to_copy = (Inr to_copy, m)"
| "read_asset_ids_to_copy ev fs m (a # rest) to_copy =
     (if map_of to_copy a \<noteq> None then read_asset_ids_to_copy ev fs m rest to_copy
      else
        (case get_raw_asset ev fs m (Id a) of
           (Inl e, m') \<Rightarrow> (Inl e, m')
         | (Inr raw, m') \<Rightarrow> read_asset_ids_to_copy ev fs m' rest (AList.update a raw to_copy)))"

fun apply_modifications ::
  "manager \<Rightarrow> string \<Rightarrow> (asset_id \<times> raw_resource option) list \<Rightarrow> pak \<Rightarrow> error + pak" where
  "apply_modifications m pak_name [] pak = Inr pak"
| "apply_modifications m pak_name ((a, raw_asset) # rest) pak =
     (case map_of (paks_for_asset_id m) a of
        None \<Rightarrow> Inl KeyError
      | Some paks \<Rightarrow>
          (if pak_name \<in> set paks then
             (case raw_asset of
                None \<Rightarrow> apply_modifications m pak_name rest (pak_remove_asset pak a)
              | Some raw \<Rightarrow> apply_modifications m pak_name rest (pak_replace_asset pak a raw))
           else apply_modifications m pak_name rest pak))"

fun add_ensured ::
  "(asset_id \<times> raw_resource option) list \<Rightarrow> asset_id list \<Rightarrow> pak \<Rightarrow> error + pak" where
  "add_ensured to_copy [] pak = Inr pak"
| "add_ensured to_copy (a # rest) pak =
     (case map_of to_copy a of
        None \<Rightarrow> Inl KeyError
      | Some None \<Rightarrow> Inl AttributeError
      | Some (Some raw) \<Rightarrow> add_ensured to_copy rest (pak_add_asset pak a raw))"

definition write_pak :: "filesystem \<Rightarrow> string \<Rightarrow> string \<Rightarrow> pak \<Rightarrow> filesystem" where
  "write_pak fs output_path pak_name pak =
     fs(output_path := (fs output_path)\<lparr>pak_files := AList.update pak_name pak (pak_files (fs output_path))\<rparr>)"

fun update_paks ::
  "manager \<Rightarrow> filesystem \<Rightarrow> string \<Rightarrow> (asset_id \<times> raw_resource option) list \<Rightarrow> string list \<Rightarrow>
   error option \<times> manager \<times> filesystem" where
  "update_paks m fs output_path to_copy [] = (None, m, fs)"
| "update_paks m fs output_path to_copy (pak_name # rest) =
     (case map_of (in_memory_paks m) pak_name of
        None \<Rightarrow> (Some KeyError, m, fs)
      | Some pak \<Rightarrow>
          (let m1 = m\<lparr>in_memory_paks := AList.delete pak_name (in_memory_paks m)\<rparr>
           in case apply_modifications m1 pak_name (modified_resources m1) pak of
                Inl e \<Rightarrow> (Some e, m1, fs)
              | Inr pak1 \<Rightarrow>
                  (case map_of (ensured_asset_ids m1) pak_name of
                     None \<Rightarrow> (Some KeyError, m1, fs)
                   | Some ensured_ids \<Rightarrow>
                       (case add_ensured to_copy ensured_ids pak1 of
                          Inl e \<Rightarrow> (Some e, m1, fs)
                        | Inr pak2 \<Rightarrow>
                            update_paks m1 (write_pak fs output_path pak_name pak2) output_path
                              to_copy rest))))"

definition write_custom_names :: "manager \<Rightarrow> filesystem \<Rightarrow> string \<Rightarrow> filesystem" where
  "write_custom_names m fs output_path =
     fs(output_path := (fs output_path)\<lparr>custom_names_json := Some (custom_asset_ids m)\<rparr>)"

definition save_modifications ::
  "env \<Rightarrow> filesystem \<Rightarrow> manager \<Rightarrow> string \<Rightarrow> error option \<times> manager \<times> filesystem" where
  "save_modifications ev fs m output_path =
     (case collect_modified_paks m (map fst (modified_resources m)) [] of
        Inl e \<Rightarrow> (Some e, m, fs)
      | Inr modified_paks \<Rightarrow>
          (case load_paks fs m modified_paks of
             (Some e, m1) \<Rightarrow> (Some e, m1, fs)
           | (None, m1) \<Rightarrow>
               (case read_asset_ids_to_copy ev fs m1 (concat (map snd (ensured_asset_ids m1))) [] of
                  (Inl e, m2) \<Rightarrow> (Some e, m2, fs)
                | (Inr to_copy, m2) \<Rightarrow>
                    (case update_paks m2 fs output_path to_copy modified_paks of
                       (Some e, m3, fs3) \<Rightarrow> (Some e, m3, fs3)
                     | (None, m3, fs3) \<Rightarrow>
                         (let fs4 = write_custom_names m3 fs3 output_path
                          in (None, update_headers fs4 (m3\<lparr>modified_resources := []\<rparr>), fs4))))))"

text \<open>What \<open>_update_headers\<close> computes, as the claim about a save names it.\<close>

definition header_index ::
  "manager \<Rightarrow>
   (asset_id \<times> string list) list \<times> (asset_id \<times> asset_type) list \<times>
   (string \<times> asset_id list) list \<times> (string \<times> asset_id) list" where
  "header_index m =
     (paks_for_asset_id m, types_for_asset_id m, ensured_asset_ids m, custom_asset_ids m)"

section \<open>The MREA encoder (formats/mrea.py)\<close>


record compressed_block_header =
  buffer_size :: nat
  uncompressed_size :: nat
  compressed_size :: nat
  data_section_count :: nat

record compressed_block =
  block_header :: compressed_block_header
  block_data :: bytes

text \<open>
  The LZO codec (compression.py) is not among the sources:
  \<open>LZOCompressedBlock(uncompressed_size)._build\<close> is a parameter that returns the
  compressed bytes or raises.
\<close>

type_synonym lzo_build = "nat \<Rightarrow> bytes \<Rightarrow> error + bytes"

text \<open>\<open>_start_new_group\<close>, with the parameter names of its definition.\<close>

definition start_new_group :: "nat \<Rightarrow> nat \<Rightarrow> string \<Rightarrow> string \<Rightarrow> bool \<times> string" where
  "start_new_group group_size section_size curr_label prev_label =
     (if group_size = 0 then (False, '''')
      else if group_size + section_size > 0x20000 then (True, ''Next section too big.'')
      else if curr_label = ''script_layers_section'' then (True, ''New SCLY section.'')
      else if prev_label = ''script_layers_section'' then (True, ''Previous SCLY completed.'')
      else if curr_label = ''generated_script_objects_section'' then (True, ''New SCGN section.'')
      else if prev_label = ''generated_script_objects_section'' then
        (True, ''Previous SCGN completed.'')
      else (False, ''''))"

text \<open>\<open>item.ljust(len(item) + (-len(item) % 32), b"\x00")\<close>\<close>

definition ljust32 :: "bytes \<Rightarrow> bytes" where
  "ljust32 item = item @ replicate ((32 - length item mod 32) mod 32) 0"

text \<open>\<open>(32 - (compressed_size % 32)) & 0x1F\<close>\<close>

definition compressed_pad :: "nat \<Rightarrow> nat" where
  "compressed_pad n = (32 - n mod 32) AND 0x1F"

record encoder_state =
  compressed_blocks :: "compressed_block list"
  current_group :: "bytes list"
  current_group_size :: nat
  previous_label :: string

text \<open>
  The closure \<open>add_group\<close>: it closes the current group into a block and resets the
  group. Its argument, the reason, is only printed in a comment.
\<close>

definition add_group :: "lzo_build \<Rightarrow> encoder_state \<Rightarrow> error + encoder_state" where
  "add_group lzo st =
     (let merged_and_padded_group = concat (map ljust32 (current_group st));
          header = \<lparr>buffer_size = current_group_size st,
                    uncompressed_size = current_group_size st,
                    compressed_size = 0,
                    data_section_count = length (current_group st)\<rparr>
      in case lzo (uncompressed_size header) merged_and_padded_group of
           Inl e \<Rightarrow> Inl e
         | Inr data \<Rightarrow>
             (let csize = length data;
                  block =
                    (if csize + compressed_pad csize < uncompressed_size header then
                       \<lparr>block_header =
                          header\<lparr>compressed_size := csize, buffer_size := buffer_size header + 0x120\<rparr>,
                        block_data = data\<rparr>
                     else \<lparr>block_header = header, block_data = merged_and_padded_group\<rparr>)
              in Inr (st\<lparr>compressed_blocks := compressed_blocks st @ [block],
                         current_group := [], current_group_size := 0\<rparr>)))"

text \<open>
  \<open>all_garbage[-1]\<close>: the last category, in the order of the sorted starts, that begins
  at or before section \<open>i\<close>; an \<open>IndexError\<close> when there is none.
\<close>

definition category_label :: "(string \<times> nat) list \<Rightarrow> nat \<Rightarrow> error + string" where
  "category_label category_starts i =
     (case filter (\<lambda>(cat, start). i \<ge> start) category_starts of
        [] \<Rightarrow> Inl IndexError
      | all_garbage \<Rightarrow> Inr (fst (last all_garbage)))"

text \<open>
  The loop over \<open>enumerate(data_sections)\<close>. The call passes \<open>previous_label\<close> where
  \<open>_start_new_group\<close> expects the current label and \<open>cat_label\<close> where it expects the
  previous one, and so does the model.
\<close>

fun encode_sections ::
  "lzo_build \<Rightarrow> (string \<times> nat) list \<Rightarrow> (nat \<times> bytes) list \<Rightarrow> encoder_state \<Rightarrow> error + encoder_state" where
  "encode_sections lzo category_starts [] st = Inr st"
| "encode_sections lzo category_starts ((i, section) # rest) st =
     (case category_label category_starts i of
        Inl e \<Rightarrow> Inl e
      | Inr cat_label \<Rightarrow>
          (case (if fst (start_new_group (current_group_size st) (length section)
                           (previous_label st) cat_label)
                 then add_group lzo st else Inr st) of
             Inl e \<Rightarrow> Inl e
           | Inr st1 \<Rightarrow>
               encode_sections lzo category_starts rest
                 (st1\<lparr>current_group := current_group st1 @ [section],
                      current_group_size := current_group_size st1 + length section,
                      previous_label := cat_label\<rparr>)))"

definition encode_compressed_blocks ::
  "lzo_build \<Rightarrow> bytes list \<Rightarrow> (string \<times> nat option) list \<Rightarrow> error + compressed_block list" where
  "encode_compressed_blocks lzo data_sections category_starts =
     (let filtered_starts =
            sort_key snd
              (concat (map (\<lambda>(cat, start). case start of None \<Rightarrow> [] | Some n \<Rightarrow> [(cat, n)])
                         category_starts))
      in case encode_sections lzo filtered_starts (enumerate 0 data_sections)
                \<lparr>compressed_blocks = [], current_group = [], current_group_size = 0,
                 previous_label = ''''\<rparr> of
           Inl e \<Rightarrow> Inl e
         | Inr st \<Rightarrow>
             (case add_group lzo st of
                Inl e \<Rightarrow> Inl e
              | Inr st' \<Rightarrow> Inr (compressed_blocks st')))"









section \<open>The MREA decoder (formats/mrea.py)\<close>











section \<open>The MAPW codec (formats/mapw.py)\<close>


fun bytes_of_int :: "nat \<Rightarrow> int \<Rightarrow> bytes" where
  "bytes_of_int 0 n = []"
| "bytes_of_int (Suc w) n = bytes_of_int w (n div 256) @ [word_of_int n]"








section \<open>Blocks and the sections they hold\<close>

fun split_by_counts :: "nat list \<Rightarrow> 'a list \<Rightarrow> 'a list list" where
  "split_by_counts [] xs = []"
| "split_by_counts (n # ns) xs = take n xs # split_by_counts ns (drop n xs)"

definition is_script_label :: "string \<Rightarrow> bool" where
  "is_script_label l =
     (l = ''script_layers_section'' \<or> l = ''generated_script_objects_section'')"

definition script_boundaries :: "(string \<times> bytes) list \<Rightarrow> bool" where
  "script_boundaries grp =
     (\<forall>j < length grp. is_script_label (fst (grp ! j)) \<longrightarrow>
        (\<forall>k < j. length (snd (grp ! k)) = 0) \<and>
        (length (snd (grp ! j)) > 0 \<longrightarrow> Suc j = length grp))"

definition block_invariant :: "lzo_build \<Rightarrow> bytes list \<Rightarrow> compressed_block \<Rightarrow> bool" where
  "block_invariant lzo grp b =
     (data_section_count (block_header b) = length grp \<and>
      uncompressed_size (block_header b) = sum_list (map length grp) \<and>
      ((compressed_size (block_header b) = 0 \<and>
        buffer_size (block_header b) = uncompressed_size (block_header b) \<and>
        block_data b = concat (map ljust32 grp)) \<or>
       (compressed_size (block_header b) + compressed_pad (compressed_size (block_header b))
          < uncompressed_size (block_header b) \<and>
        buffer_size (block_header b) = uncompressed_size (block_header b) + 0x120 \<and>
        compressed_size (block_header b) = length (block_data b) \<and>
        lzo (uncompressed_size (block_header b)) (concat (map ljust32 grp)) = Inr (block_data b))))"

definition grouped :: "lzo_build \<Rightarrow> (string \<times> bytes) list list \<Rightarrow> compressed_block list \<Rightarrow> bool" where
  "grouped lzo groups blocks =
     (list_all2 (\<lambda>g b. block_invariant lzo (map snd g) b) groups blocks \<and>
      (\<forall>g \<in> set groups. script_boundaries g))"

definition label_of :: "(string \<times> nat) list \<Rightarrow> nat \<Rightarrow> string" where
  "label_of category_starts i =
     (case category_label category_starts i of Inl e \<Rightarrow> [] | Inr l \<Rightarrow> l)"


definition section_starts :: "(string \<times> nat option) list \<Rightarrow> (string \<times> nat) list" where
  "section_starts mrea_header =
     concat (map (\<lambda>(cat, start). case start of None \<Rightarrow> [] | Some n \<Rightarrow> [(cat, n)]) mrea_header)"

definition block_sections :: "compressed_block list \<Rightarrow> 'a list \<Rightarrow> 'a list list" where
  "block_sections blocks xs =
     split_by_counts (map (\<lambda>b. data_section_count (block_header b)) blocks) xs"


section \<open>Sessions: the states a manager can reach\<close>

definition frame :: "manager \<Rightarrow> manager \<Rightarrow> bool" where
  "frame m m' =
     (provider m' = provider m \<and> target_game m' = target_game m \<and> all_paks m' = all_paks m \<and>
      paks_for_asset_id m' = paks_for_asset_id m \<and> types_for_asset_id m' = types_for_asset_id m \<and>
      modified_resources m' = modified_resources m \<and> custom_asset_ids m' = custom_asset_ids m \<and>
      next_generated_id m' = next_generated_id m \<and>
      cached_ancs_per_char_dependencies m' = cached_ancs_per_char_dependencies m \<and>
      sound_id_to_agsc m' = sound_id_to_agsc m)"

text \<open>Invariant 2 of the data model.\<close>

definition ensured_disjoint :: "manager \<Rightarrow> bool" where
  "ensured_disjoint m =
     (\<forall>p ids a. map_of (ensured_asset_ids m) p = Some ids \<longrightarrow> a \<in> set ids \<longrightarrow>
        (\<exists>paks. map_of (paks_for_asset_id m) a = Some paks \<and> p \<notin> set paks))"

definition ensured_empty :: "manager \<Rightarrow> bool" where
  "ensured_empty m = (\<forall>p ids. map_of (ensured_asset_ids m) p = Some ids \<longrightarrow> ids = [])"

inductive step :: "env \<Rightarrow> manager \<times> filesystem \<Rightarrow> manager \<times> filesystem \<Rightarrow> bool" for ev where
  step_get_raw_asset: "step ev (m, fs) (snd (get_raw_asset ev fs m v), fs)"
| step_get_dependencies:
    "step ev (m, fs) (snd (get_dependencies_for_asset ev fs m v must_exist), fs)"
| step_generate_asset_id: "step ev (m, fs) (snd (generate_asset_id ev m), fs)"
| step_register_custom_asset_name:
    "step ev (m, fs) (snd (register_custom_asset_name ev m name a), fs)"
| step_add_new_asset:
    "step ev (m, fs) (snd (add_new_asset ev fs depth m v new_data in_paks), fs)"
| step_replace_asset: "step ev (m, fs) (snd (replace_asset ev m v new_data), fs)"
| step_delete_asset: "step ev (m, fs) (snd (delete_asset ev m v), fs)"
| step_ensure_present: "step ev (m, fs) (snd (ensure_present ev fs depth m pak_name v), fs)"
| step_save_modifications: "step ev (m, fs) (snd (save_modifications ev fs m output_path))"
| step_other_caches:
    "step ev (m, fs) (m\<lparr>cached_ancs_per_char_dependencies := c, sound_id_to_agsc := s\<rparr>, fs)"

inductive reachable :: "env \<Rightarrow> manager \<times> filesystem \<Rightarrow> bool" for ev where
  reachable_init: "reachable ev (AssetManager_init fs prov g, fs)"
| reachable_step: "reachable ev s \<Longrightarrow> step ev s s' \<Longrightarrow> reachable ev s'"

definition quiet :: "manager \<Rightarrow> manager \<Rightarrow> bool" where
  "quiet m m' = (frame m m' \<and> ensured_asset_ids m' = ensured_asset_ids m)"

section \<open>A small installation, for concrete runs\<close>

text \<open>
  Two PAKs under the directory \<open>in\<close>, no alias file, and a registry that knows one
  typed format, \<open>DGRP\<close>, whose parser reports a single texture.
\<close>

definition ex_raw :: "asset_type \<Rightarrow> raw_resource" where
  "ex_raw t = \<lparr>rtype = t, rdata = []\<rparr>"

definition ex_dep :: dependency where
  "ex_dep = \<lparr>dep_type = ''TXTR'', dep_id = Id 0x7b2ea5b1, exclude_for_mlvl = False\<rparr>"

definition ex_env :: env where
  "ex_env =
     \<lparr>name_hash = (\<lambda>g s. 0),
      should_cheat_asset = (\<lambda>t. False),
      get_cheated_dependencies = (\<lambda>raw m. Inr []),
      has_resource_type = (\<lambda>t. t = ''DGRP''),
      has_dependencies = (\<lambda>t g. True),
      parsed_dependencies_for = (\<lambda>t d m. Inr [ex_dep])\<rparr>"

definition ex_tree :: tree where
  "ex_tree =
     \<lparr>custom_names_json = None,
      pak_files =
        [(''a.pak'', [(0xFFFF0000, ex_raw ''TXTR''), (5, ex_raw ''DGRP''),
                      (0x7b2ea5b1, ex_raw ''TXTR'')]),
         (''b.pak'', [(7, ex_raw ''STRG'')])]\<rparr>"

definition ex_fs :: filesystem where
  "ex_fs = (\<lambda>root. if root = ''in'' then ex_tree else \<lparr>custom_names_json = None, pak_files = []\<rparr>)"

definition ex_manager :: "game \<Rightarrow> manager" where
  "ex_manager g = AssetManager_init ex_fs (PathFileProvider ''in'') g"

text \<open>The same installation after \<open>ensure_present("a.pak", 7)\<close>.\<close>

definition ex_ensured :: "game \<Rightarrow> manager" where
  "ex_ensured g = (ex_manager g)\<lparr>ensured_asset_ids := [(''a.pak'', [7]), (''b.pak'', [])]\<rparr>"

text \<open>
  A deletion of asset 7 and the stages of the save that follows it; two disc images, one
  without a data partition.
\<close>

definition ex_deleted :: manager where
  "ex_deleted = (ex_manager PRIME)\<lparr>modified_resources := [(7, None)]\<rparr>"

definition ex_loaded :: manager where
  "ex_loaded = ex_deleted\<lparr>in_memory_paks := [(''b.pak'', [(7, ex_raw ''STRG'')])]\<rparr>"

definition ex_saved_fs :: "string \<Rightarrow> filesystem" where
  "ex_saved_fs out =
     write_custom_names (ex_loaded\<lparr>in_memory_paks := []\<rparr>) (write_pak ex_fs out ''b.pak'' []) out"

definition ex_saved :: "string \<Rightarrow> manager" where
  "ex_saved out =
     update_headers (ex_saved_fs out) (ex_loaded\<lparr>in_memory_paks := [], modified_resources := []\<rparr>)"

definition ex_open_disc :: "string \<Rightarrow> (disc \<times> bool) option" where
  "ex_open_disc path =
     (if path = ''echoes.iso'' then Some (\<lparr>data_partition = Some ex_tree\<rparr>, False)
      else if path = ''update.iso'' then Some (\<lparr>data_partition = None\<rparr>, True)
      else None)"

text \<open>
  Two areas and a stand-in compressor that answers one byte: \<open>ex_area\<close> has sections of
  length zero, \<open>ex_room\<close> has none.
\<close>

definition ex_lzo :: lzo_build where
  "ex_lzo n d = Inr [0]"

definition ex_section :: "nat \<Rightarrow> byte \<Rightarrow> bytes" where
  "ex_section n v = replicate n v"




definition ex_room_header :: "(string \<times> nat option) list" where
  "ex_room_header =
     [(''geometry_section'', Some 0), (''unknown_section_2'', None),
      (''script_layers_section'', Some 1), (''generated_script_objects_section'', None),
      (''collision_section'', Some 3), (''unknown_section_1'', None),
      (''lights_section'', None), (''visibility_tree_section'', None),
      (''path_section'', None), (''area_octree_section'', None),
      (''portal_area_section'', None), (''static_geometry_map_section'', None)]"

definition ex_room_sections :: "bytes list" where
  "ex_room_sections =
     [ex_section 64 7, ex_section 32 1, ex_section 32 3, ex_section 32 4, ex_section 32 5]"

definition ex_room_blocks :: "compressed_block list" where
  "ex_room_blocks =
     [\<lparr>block_header = \<lparr>buffer_size = 352, uncompressed_size = 64, compressed_size = 1,
                        data_section_count = 1\<rparr>,
       block_data = [0]\<rparr>,
      \<lparr>block_header = \<lparr>buffer_size = 32, uncompressed_size = 32, compressed_size = 0,
                        data_section_count = 1\<rparr>,
       block_data = ex_section 32 1\<rparr>,
      \<lparr>block_header = \<lparr>buffer_size = 32, uncompressed_size = 32, compressed_size = 0,
                        data_section_count = 1\<rparr>,
       block_data = ex_section 32 3\<rparr>,
      \<lparr>block_header = \<lparr>buffer_size = 352, uncompressed_size = 64, compressed_size = 1,
                        data_section_count = 2\<rparr>,
       block_data = [0]\<rparr>]"

definition ex_room_starts :: "(string \<times> nat) list" where
  "ex_room_starts =
     [(''geometry_section'', 0), (''script_layers_section'', 1), (''collision_section'', 3)]"






section \<open>Frame and invariant lemmas\<close>

lemma frame_refl: "frame m m"
  by (simp add: frame_def)

lemma frame_trans: "frame m m1 \<Longrightarrow> frame m1 m2 \<Longrightarrow> frame m m2"
  by (simp add: frame_def)

lemma get_pak_frame:
  "frame m (snd (get_pak fs m p)) \<and> ensured_asset_ids (snd (get_pak fs m p)) = ensured_asset_ids m
   \<and> cached_dependencies (snd (get_pak fs m p)) = cached_dependencies m"
  by (simp add: get_pak_def frame_def split: option.splits)

lemma get_raw_asset_loop_frame:
  "frame m (snd (get_raw_asset_loop fs m a ps)) \<and>
   ensured_asset_ids (snd (get_raw_asset_loop fs m a ps)) = ensured_asset_ids m \<and>
   cached_dependencies (snd (get_raw_asset_loop fs m a ps)) = cached_dependencies m"
proof (induction ps arbitrary: m)
  case Nil
  then show ?case by (simp add: frame_refl)
next
  case (Cons p ps)
  obtain r m' where g: "get_pak fs m p = (r, m')"
    by (cases "get_pak fs m p")
  have f: "frame m m'" "ensured_asset_ids m' = ensured_asset_ids m"
     "cached_dependencies m' = cached_dependencies m"
    using get_pak_frame [of m fs p] g by simp_all
  show ?case
  proof (cases r)
    case (Inl e)
    with g f show ?thesis by simp
  next
    case (Inr pak)
    show ?thesis
    proof (cases "pak_get_asset pak a")
      case None
      with g Inr f Cons.IH [of m'] show ?thesis
        by (auto intro: frame_trans)
    next
      case (Some x)
      with g Inr f show ?thesis by simp
    qed
  qed
qed

lemma get_raw_asset_frame:
  "frame m (snd (get_raw_asset ev fs m v)) \<and>
   ensured_asset_ids (snd (get_raw_asset ev fs m v)) = ensured_asset_ids m \<and>
   cached_dependencies (snd (get_raw_asset ev fs m v)) = cached_dependencies m"
  using get_raw_asset_loop_frame
  by (simp add: get_raw_asset_def Let_def frame_refl split: option.splits)

lemma scan_dependencies_frame:
  "frame m (snd (scan_dependencies ev fs m v t)) \<and>
   ensured_asset_ids (snd (scan_dependencies ev fs m v t)) = ensured_asset_ids m \<and>
   cached_dependencies (snd (scan_dependencies ev fs m v t)) = cached_dependencies m"
proof -
  obtain r m' where g: "get_raw_asset ev fs m v = (r, m')"
    by (cases "get_raw_asset ev fs m v")
  have f: "frame m m'" "ensured_asset_ids m' = ensured_asset_ids m"
    "cached_dependencies m' = cached_dependencies m"
    using get_raw_asset_frame [of m ev fs v] g by simp_all
  show ?thesis
    using g f by (simp add: scan_dependencies_def frame_refl split: sum.splits option.splits)
qed

lemma scan_dependencies_frameD:
  "scan_dependencies ev fs m v t = (r, m') \<Longrightarrow>
     frame m m' \<and> ensured_asset_ids m' = ensured_asset_ids m \<and>
     cached_dependencies m' = cached_dependencies m"
  using scan_dependencies_frame [of m ev fs v t] by simp

lemma frame_cached_update: "frame m m' \<Longrightarrow> frame m (m'\<lparr>cached_dependencies := c\<rparr>)"
  by (simp add: frame_def)

lemma inner_get_dependencies_frame:
  "frame m (snd (inner_get_dependencies_for_asset ev fs m v me)) \<and>
   ensured_asset_ids (snd (inner_get_dependencies_for_asset ev fs m v me)) = ensured_asset_ids m"
  unfolding inner_get_dependencies_for_asset_def
  by (auto simp: frame_refl frame_cached_update split: sum.splits option.splits prod.splits
      dest!: scan_dependencies_frameD)

lemma get_dependencies_frame:
  "frame m (snd (get_dependencies_for_asset ev fs m v me)) \<and>
   ensured_asset_ids (snd (get_dependencies_for_asset ev fs m v me)) = ensured_asset_ids m"
  using inner_get_dependencies_frame [of m ev fs v me]
  by (auto simp: get_dependencies_for_asset_def Let_def split: sum.splits prod.splits)

lemma get_dependencies_frameD:
  "get_dependencies_for_asset ev fs m v me = (r, m') \<Longrightarrow>
     frame m m' \<and> ensured_asset_ids m' = ensured_asset_ids m"
  using get_dependencies_frame [of m ev fs v me] by simp

lemma map_of_map_entry:
  "map_of (AList.map_entry k f xs) k' =
     (if k' = k then map_option f (map_of xs k) else map_of xs k')"
  by (induction xs) auto

lemma ensured_disjoint_add:
  assumes "ensured_disjoint m" "map_of (paks_for_asset_id m) a = Some paks" "p \<notin> set paks"
  shows "ensured_disjoint (m\<lparr>ensured_asset_ids := AList.map_entry p (set_add a) (ensured_asset_ids m)\<rparr>)"
  using assms
  by (auto simp: ensured_disjoint_def map_of_map_entry set_add_def split: if_splits)

lemma ensured_disjoint_frame:
  "ensured_disjoint m \<Longrightarrow> frame m m' \<Longrightarrow> ensured_asset_ids m' = ensured_asset_ids m \<Longrightarrow>
   ensured_disjoint m'"
  by (simp add: ensured_disjoint_def frame_def)

lemma frame_ensured_update: "frame m (m\<lparr>ensured_asset_ids := e\<rparr>)"
  by (simp add: frame_def)

lemma ensure_present_inv:
  "frame m (snd (ensure_present ev fs depth m p v)) \<and>
   (ensured_disjoint m \<longrightarrow> ensured_disjoint (snd (ensure_present ev fs depth m p v)))"
  "frame m (snd (ensure_present_deps ev fs depth m p a deps)) \<and>
   (ensured_disjoint m \<longrightarrow> ensured_disjoint (snd (ensure_present_deps ev fs depth m p a deps)))"
proof (induction ev fs depth m p v and ev fs depth m p a deps
    rule: ensure_present_ensure_present_deps.induct)
  case (1 ev fs m pak_name v)
  then show ?case by (simp add: frame_refl)
next
  case (2 ev fs depth m pak_name v)
  let ?a = "resolve_asset_id ev m v"
  show ?case
  proof (cases "map_of (ensured_asset_ids m) pak_name = None \<or> \<not> does_asset_exists ev m (Id ?a)
      \<or> map_of (paks_for_asset_id m) ?a = None")
    case True
    then show ?thesis
      by (auto simp: frame_refl Let_def)
  next
    case False
    then obtain paks where paks: "map_of (paks_for_asset_id m) ?a = Some paks"
      by auto
    from False obtain ens where c1: "map_of (ensured_asset_ids m) pak_name = Some ens"
      by auto
    from False have c2: "does_asset_exists ev m (Id ?a)"
      by simp
    define m1 where "m1 = (if pak_name \<notin> set paks then
                             m\<lparr>ensured_asset_ids :=
                                 AList.map_entry pak_name (set_add ?a) (ensured_asset_ids m)\<rparr>
                           else m)"
    have f1: "frame m m1"
      by (simp add: m1_def frame_refl frame_ensured_update)
    have i1: "ensured_disjoint m \<Longrightarrow> ensured_disjoint m1"
      using paks by (simp add: m1_def ensured_disjoint_add)
    obtain r m2 where g: "get_dependencies_for_asset ev fs m1 (Id ?a) False = (r, m2)"
      by (cases "get_dependencies_for_asset ev fs m1 (Id ?a) False")
    have f2: "frame m1 m2" "ensured_asset_ids m2 = ensured_asset_ids m1"
      using get_dependencies_frameD [OF g] by simp_all
    have i2: "ensured_disjoint m \<Longrightarrow> ensured_disjoint m2"
      using i1 f2 ensured_disjoint_frame by blast
    have f02: "frame m m2"
      using f1 f2 frame_trans by blast
    show ?thesis
    proof (cases r)
      case (Inl e)
      with c1 c2 paks g f02 i2 show ?thesis
        by (simp add: Let_def m1_def)
    next
      case (Inr ds)
      have IH: "frame m2 (snd (ensure_present_deps ev fs depth m2 pak_name ?a ds)) \<and>
        (ensured_disjoint m2 \<longrightarrow> ensured_disjoint (snd (ensure_present_deps ev fs depth m2 pak_name ?a ds)))"
      proof -
        have nn: "map_of (ensured_asset_ids m) pak_name \<noteq> None"
          using c1 by simp
        have ne: "\<not> \<not> does_asset_exists ev m (Id ?a)"
          using c2 by simp
        have g': "(r, m2) = get_dependencies_for_asset ev fs
            (if pak_name \<notin> set paks then
               m\<lparr>ensured_asset_ids := AList.map_entry pak_name (set_add ?a) (ensured_asset_ids m)\<rparr>
             else m) (Id ?a) False"
          using g by (simp add: m1_def)
        show ?thesis
          by (rule "2.IH" [OF nn refl ne paks refl g' Inr])
      qed
      have eq: "ensure_present ev fs (Suc depth) m pak_name v =
          ensure_present_deps ev fs depth m2 pak_name ?a ds"
        using c1 c2 paks g Inr by (simp add: Let_def m1_def)
      show ?thesis
        unfolding eq using IH f02 i2 frame_trans by blast
    qed
  qed
next
  case (3 ev fs depth m pak_name a)
  then show ?case by (simp add: frame_refl)
next
  case (4 ev fs depth m pak_name a dep deps)
  show ?case
  proof (cases "dep_id dep = Id a")
    case True
    with "4.IH"(1) show ?thesis by simp
  next
    case False
    obtain r m' where g: "ensure_present ev fs depth m pak_name (dep_id dep) = (r, m')"
      by (cases "ensure_present ev fs depth m pak_name (dep_id dep)")
    have h1: "frame m m'" "ensured_disjoint m \<longrightarrow> ensured_disjoint m'"
      using "4.IH"(2) [OF False] g by simp_all
    show ?thesis
    proof (cases r)
      case (Some e)
      with False g h1 show ?thesis by simp
    next
      case None
      have "frame m' (snd (ensure_present_deps ev fs depth m' pak_name a deps)) \<and>
        (ensured_disjoint m' \<longrightarrow> ensured_disjoint (snd (ensure_present_deps ev fs depth m' pak_name a deps)))"
        using "4.IH"(3) [OF False g [symmetric] None] by simp
      with False g None h1 show ?thesis
        using frame_trans by auto
    qed
  qed
qed

lemma fold_preserves:
  assumes "\<And>x s. g (f x s) = g s"
  shows "g (fold f xs s) = g s"
  using assms by (induction xs arbitrary: s) simp_all

lemma fold_invariant:
  assumes "P s" "\<And>x s. P s \<Longrightarrow> P (f x s)"
  shows "P (fold f xs s)"
  using assms by (induction xs arbitrary: s) simp_all

lemma ensured_empty_disjoint_aux:
  "ensured_empty m \<Longrightarrow> ensured_disjoint m"
  unfolding ensured_empty_def ensured_disjoint_def
  by (metis empty_iff empty_set)

lemma scan_pak_header_ensured:
  "ensured_asset_ids (scan_pak_header t name m) = AList.update name [] (ensured_asset_ids m)"
  unfolding scan_pak_header_def
  by (subst fold_preserves [where g = ensured_asset_ids])
     (simp_all add: add_pak_name_for_asset_id_def)

lemma scan_pak_header_ensured_empty:
  "ensured_empty m \<Longrightarrow> ensured_empty (scan_pak_header t name m)"
  by (auto simp: ensured_empty_def scan_pak_header_ensured update_conv')

lemma update_headers_ensured_empty: "ensured_empty (update_headers fs m)"
  unfolding update_headers_def Let_def
  by (rule fold_invariant) (simp_all add: ensured_empty_def scan_pak_header_ensured_empty [unfolded ensured_empty_def])

lemma scan_pak_header_keeps:
  "next_generated_id (scan_pak_header t name m) = next_generated_id m"
  "modified_resources (scan_pak_header t name m) = modified_resources m"
  "provider (scan_pak_header t name m) = provider m"
  "target_game (scan_pak_header t name m) = target_game m"
  "custom_asset_ids (scan_pak_header t name m) = custom_asset_ids m"
  unfolding scan_pak_header_def
  by (subst fold_preserves; simp add: add_pak_name_for_asset_id_def)+

lemma update_headers_keeps:
  "next_generated_id (update_headers fs m) = next_generated_id m"
  "modified_resources (update_headers fs m) = modified_resources m"
  "provider (update_headers fs m) = provider m"
  "target_game (update_headers fs m) = target_game m"
  unfolding update_headers_def Let_def
  by (subst fold_preserves; simp add: scan_pak_header_keeps)+

lemma ensured_disjoint_cong:
  "ensured_asset_ids m' = ensured_asset_ids m \<Longrightarrow> paks_for_asset_id m' = paks_for_asset_id m \<Longrightarrow>
   ensured_disjoint m' = ensured_disjoint m"
  by (simp add: ensured_disjoint_def)

lemma frame_paks: "frame m m' \<Longrightarrow> paks_for_asset_id m' = paks_for_asset_id m"
  by (simp add: frame_def)

lemma frame_next: "frame m m' \<Longrightarrow> next_generated_id m' = next_generated_id m"
  by (simp add: frame_def)

lemma replace_asset_keeps:
  "ensured_asset_ids (snd (replace_asset ev m v d)) = ensured_asset_ids m"
  "paks_for_asset_id (snd (replace_asset ev m v d)) = paks_for_asset_id m"
  "next_generated_id (snd (replace_asset ev m v d)) = next_generated_id m"
  by (simp_all add: replace_asset_def Let_def split: resource.splits sum.splits)

lemma ensure_present_all_inv:
  "frame m (snd (ensure_present_all ev fs depth m ps a)) \<and>
   (ensured_disjoint m \<longrightarrow> ensured_disjoint (snd (ensure_present_all ev fs depth m ps a)))"
proof (induction ps arbitrary: m)
  case Nil
  then show ?case by (simp add: frame_refl)
next
  case (Cons p ps)
  obtain r m' where g: "ensure_present ev fs depth m p (Id a) = (r, m')"
    by (cases "ensure_present ev fs depth m p (Id a)")
  have h: "frame m m'" "ensured_disjoint m \<longrightarrow> ensured_disjoint m'"
    using ensure_present_inv(1) [of m ev fs depth p "Id a"] g by simp_all
  show ?case
  proof (cases r)
    case None
    with g h Cons.IH [of m'] show ?thesis
      using frame_trans by auto
  next
    case (Some e)
    with g h show ?thesis by simp
  qed
qed

lemma ensured_disjoint_add_new:
  assumes "ensured_disjoint m"
  shows "ensured_disjoint (m\<lparr>custom_asset_ids := c,
            paks_for_asset_id := AList.update a [] (paks_for_asset_id m)\<rparr>)"
  using assms by (auto simp: ensured_disjoint_def update_conv')

lemma add_new_asset_inv:
  assumes "ensured_disjoint m"
  shows "ensured_disjoint (snd (add_new_asset ev fs depth m v d ps))"
proof -
  let ?a = "resolve_asset_id ev m v"
  let ?m1 = "m\<lparr>custom_asset_ids := AList.update (str_of v) ?a (custom_asset_ids m),
               paks_for_asset_id := AList.update ?a [] (paks_for_asset_id m)\<rparr>"
  obtain r m2 where g: "replace_asset ev ?m1 v d = (r, m2)"
    by (cases "replace_asset ev ?m1 v d")
  have "ensured_disjoint ?m1"
    using assms by (rule ensured_disjoint_add_new)
  moreover have "ensured_asset_ids m2 = ensured_asset_ids ?m1" "paks_for_asset_id m2 = paks_for_asset_id ?m1"
    using replace_asset_keeps [of ev ?m1 v d] g by simp_all
  ultimately have i2: "ensured_disjoint m2"
    using ensured_disjoint_cong by blast
  then have "ensured_disjoint (snd (ensure_present_all ev fs depth m2 ps ?a))"
    using ensure_present_all_inv by blast
  with assms g i2 show ?thesis
    by (simp add: add_new_asset_def Let_def split: sum.splits)
qed


lemma map_of_map_values:
  "map_of (map (\<lambda>(k, v). (k, f v)) xs) k = map_option f (map_of xs k)"
  by (induction xs) auto

lemma delete_asset_inv:
  assumes "ensured_disjoint m"
  shows "ensured_disjoint (snd (delete_asset ev m v))"
  using assms
  by (auto simp: delete_asset_def Let_def ensured_disjoint_def map_of_map_values)

lemma quiet_refl: "quiet m m"
  by (simp add: quiet_def frame_refl)

lemma quiet_trans: "quiet m m1 \<Longrightarrow> quiet m1 m2 \<Longrightarrow> quiet m m2"
  by (auto simp: quiet_def intro: frame_trans)

lemma load_paks_quiet: "quiet m (snd (load_paks fs m ps))"
proof (induction ps arbitrary: m)
  case Nil
  then show ?case by (simp add: quiet_refl)
next
  case (Cons p ps)
  obtain r m' where g: "get_pak fs m p = (r, m')"
    by (cases "get_pak fs m p")
  have "quiet m m'"
    using get_pak_frame [of m fs p] g by (simp add: quiet_def)
  with g Cons.IH [of m'] show ?case
    by (cases r) (auto intro: quiet_trans)
qed

lemma read_asset_ids_to_copy_quiet:
  "quiet m (snd (read_asset_ids_to_copy ev fs m ids to_copy))"
proof (induction ids arbitrary: m to_copy)
  case Nil
  then show ?case by (simp add: quiet_refl)
next
  case (Cons a ids)
  obtain r m' where g: "get_raw_asset ev fs m (Id a) = (r, m')"
    by (cases "get_raw_asset ev fs m (Id a)")
  have q: "quiet m m'"
    using get_raw_asset_frame [of m ev fs "Id a"] g by (simp add: quiet_def)
  show ?case
  proof (cases "map_of to_copy a \<noteq> None")
    case True
    with Cons.IH [of m to_copy] show ?thesis by simp
  next
    case False
    with g q Cons.IH [of m'] show ?thesis
      by (cases r) (auto intro: quiet_trans)
  qed
qed

lemma update_paks_quiet:
  "quiet m (fst (snd (update_paks m fs output_path to_copy ps)))"
proof (induction ps arbitrary: m fs)
  case Nil
  then show ?case by (simp add: quiet_refl)
next
  case (Cons p ps)
  have q: "\<And>x. quiet m (m\<lparr>in_memory_paks := x\<rparr>)"
    by (simp add: quiet_def frame_def)
  show ?case
    using q Cons.IH
    by (auto simp: Let_def quiet_refl split: option.splits sum.splits intro: quiet_trans)
qed

text \<open>A save either raises and leaves the index alone, or ends in the re-scan.\<close>

lemma save_modifications_cases:
  assumes "save_modifications ev fs m output_path = (r, m', fs')"
  shows "(r \<noteq> None \<and> quiet m m') \<or>
         (r = None \<and> (\<exists>m3. quiet m m3 \<and> m' = update_headers fs' (m3\<lparr>modified_resources := []\<rparr>)))"
proof (cases "collect_modified_paks m (map fst (modified_resources m)) []")
  case (Inl e)
  with assms show ?thesis
    by (auto simp: save_modifications_def quiet_refl)
next
  case (Inr modified_paks)
  obtain r1 m1 where l: "load_paks fs m modified_paks = (r1, m1)"
    by (cases "load_paks fs m modified_paks")
  have q1: "quiet m m1"
    using load_paks_quiet [of m fs modified_paks] l by simp
  show ?thesis
  proof (cases r1)
    case (Some e)
    with assms Inr l q1 show ?thesis
      by (auto simp: save_modifications_def)
  next
    case None
    obtain r2 m2 where c: "read_asset_ids_to_copy ev fs m1 (concat (map snd (ensured_asset_ids m1))) [] = (r2, m2)"
      by (cases "read_asset_ids_to_copy ev fs m1 (concat (map snd (ensured_asset_ids m1))) []")
    have q2: "quiet m m2"
      using read_asset_ids_to_copy_quiet [of m1 ev fs "concat (map snd (ensured_asset_ids m1))" "[]"] c q1
      by (auto intro: quiet_trans)
    show ?thesis
    proof (cases r2)
      case (Inl e)
      with assms Inr l None c q2 show ?thesis
        by (auto simp: save_modifications_def)
    next
      case (Inr to_copy)
      obtain r3 m3 fs3 where u: "update_paks m2 fs output_path to_copy modified_paks = (r3, m3, fs3)"
        by (cases "update_paks m2 fs output_path to_copy modified_paks") auto
      have q3: "quiet m m3"
        using update_paks_quiet [of m2 fs output_path to_copy modified_paks] u q2
        by (auto intro: quiet_trans)
      show ?thesis
      proof (cases r3)
        case (Some e)
        with assms \<open>collect_modified_paks m (map fst (modified_resources m)) [] = Inr modified_paks\<close>
          l None c Inr u q3 show ?thesis
          by (auto simp: save_modifications_def)
      next
        case None3: None
        with assms \<open>collect_modified_paks m (map fst (modified_resources m)) [] = Inr modified_paks\<close>
          l None c Inr u q3 show ?thesis
          by (auto simp: save_modifications_def Let_def)
      qed
    qed
  qed
qed

lemma quiet_disjoint: "quiet m m' \<Longrightarrow> ensured_disjoint m \<Longrightarrow> ensured_disjoint m'"
  using ensured_disjoint_cong [of m' m] by (simp add: quiet_def frame_def)

lemma step_preserves_ensured_disjoint:
  assumes "step ev s s'" "ensured_disjoint (fst s)"
  shows "ensured_disjoint (fst s')"
  using assms
proof (induction rule: step.induct)
  case (step_get_raw_asset m fs v)
  then show ?case
    using get_raw_asset_frame [of m ev fs v] quiet_disjoint [of m] by (simp add: quiet_def)
next
  case (step_get_dependencies m fs v must_exist)
  then show ?case
    using get_dependencies_frame [of m ev fs v must_exist] quiet_disjoint [of m] by (simp add: quiet_def)
next
  case (step_generate_asset_id m fs)
  then show ?case
    by (simp add: generate_asset_id_def Let_def ensured_disjoint_def)
next
  case (step_register_custom_asset_name m fs name a)
  then show ?case
    by (simp add: register_custom_asset_name_def ensured_disjoint_def)
next
  case (step_add_new_asset m fs depth v new_data in_paks)
  then show ?case
    by (simp add: add_new_asset_inv)
next
  case (step_replace_asset m fs v new_data)
  then show ?case
    using ensured_disjoint_cong [OF replace_asset_keeps(1,2)] by simp
next
  case (step_delete_asset m fs v)
  then show ?case
    by (simp add: delete_asset_inv)
next
  case (step_ensure_present m fs depth pak_name v)
  then show ?case
    using ensure_present_inv(1) by simp
next
  case (step_save_modifications m fs output_path)
  obtain r m' fs' where g: "save_modifications ev fs m output_path = (r, m', fs')"
    by (cases "save_modifications ev fs m output_path") auto
  from save_modifications_cases [OF g] step_save_modifications g show ?case
    by (auto intro: quiet_disjoint ensured_empty_disjoint_aux update_headers_ensured_empty)
next
  case (step_other_caches m fs c s)
  then show ?case
    by (simp add: ensured_disjoint_def)
qed

lemma reachable_ensured_disjoint:
  "reachable ev s \<Longrightarrow> ensured_disjoint (fst s)"
proof (induction rule: reachable.induct)
  case (reachable_init fs prov g)
  then show ?case
    by (simp add: AssetManager_init_def ensured_empty_disjoint_aux update_headers_ensured_empty)
next
  case (reachable_step s s')
  then show ?case
    using step_preserves_ensured_disjoint by blast
qed








section \<open>The small installation, evaluated\<close>

lemma ex_manager_eq:
  "ex_manager g =
     \<lparr>provider = PathFileProvider ''in'', target_game = g, all_paks = [''a.pak'', ''b.pak''],
      paks_for_asset_id =
        [(0xFFFF0000, [''a.pak'']), (5, [''a.pak'']), (0x7b2ea5b1, [''a.pak'']), (7, [''b.pak''])],
      types_for_asset_id =
        [(0xFFFF0000, ''TXTR''), (5, ''DGRP''), (0x7b2ea5b1, ''TXTR''), (7, ''STRG'')],
      ensured_asset_ids = [(''a.pak'', []), (''b.pak'', [])], modified_resources = [],
      in_memory_paks = [], custom_asset_ids = [], next_generated_id = 0xFFFF0000,
      cached_dependencies = [], cached_ancs_per_char_dependencies = [],
      sound_id_to_agsc = []\<rparr>"
  by (simp add: ex_manager_def AssetManager_init_def update_headers_def ex_fs_def ex_tree_def Let_def
      scan_pak_header_def add_pak_name_for_asset_id_def set_add_def ex_raw_def)







lemma ex_type_7: "get_asset_type ex_env (ex_manager g) (Id 7) = Inr ''STRG''"
  by (simp add: get_asset_type_def Let_def resolve_asset_id_def ex_manager_eq)

lemma ex_exists_7: "does_asset_exists ex_env (ex_manager g) (Id 7)"
  by (simp add: does_asset_exists_def Let_def resolve_asset_id_def ex_manager_eq)

lemma ex_ensured_fields:
  "custom_asset_ids (ex_ensured g) = []"
  "target_game (ex_ensured g) = g"
  "modified_resources (ex_ensured g) = []"
  "cached_dependencies (ex_ensured g) = []"
  "map_of (paks_for_asset_id (ex_ensured g)) 7 = Some [''b.pak'']"
  "map_of (types_for_asset_id (ex_ensured g)) 7 = Some ''STRG''"
  by (simp_all add: ex_ensured_def ex_manager_eq)

lemma ex_inner_7:
  "g \<noteq> PRIME_REMASTER \<Longrightarrow> inner_get_dependencies_for_asset ex_env ex_fs (ex_ensured g) (Id 7) False =
     (Inr [\<lparr>dep_type = ''STRG'', dep_id = Id 7, exclude_for_mlvl = False\<rparr>],
      (ex_ensured g)\<lparr>cached_dependencies := [(Id 7, [])]\<rparr>)"
  apply (simp add: inner_get_dependencies_for_asset_def does_asset_exists_def get_asset_type_def Let_def
      resolve_asset_id_def ex_ensured_fields scan_dependencies_def ex_env_def)
  apply (cases g; simp add: invalid_asset_id_def uses_asset_id_32_def uses_asset_id_64_def)
  done

lemma ex_ensure_7:
  "g \<noteq> PRIME_REMASTER \<Longrightarrow>
   ensure_present ex_env ex_fs (Suc 0) (ex_manager g) ''a.pak'' (Id 7) =
     (None, (ex_ensured g)\<lparr>cached_dependencies := [(Id 7, [])]\<rparr>)"
proof -
  assume g: "g \<noteq> PRIME_REMASTER"
  have r: "resolve_asset_id ex_env (ex_manager g) (Id 7) = 7"
    by (simp add: resolve_asset_id_def ex_manager_eq)
  have p: "map_of (paks_for_asset_id (ex_manager g)) 7 = Some [''b.pak'']"
    by (simp add: ex_manager_eq)
  have e: "map_of (ensured_asset_ids (ex_manager g)) ''a.pak'' = Some []"
    by (simp add: ex_manager_eq)
  have m1: "(ex_manager g)\<lparr>ensured_asset_ids :=
      AList.map_entry ''a.pak'' (set_add 7) (ensured_asset_ids (ex_manager g))\<rparr> = ex_ensured g"
    by (simp add: ex_ensured_def ex_manager_eq set_add_def)
  have d: "get_dependencies_for_asset ex_env ex_fs (ex_ensured g) (Id 7) False =
     (Inr [\<lparr>dep_type = ''STRG'', dep_id = Id 7, exclude_for_mlvl = False\<rparr>],
      (ex_ensured g)\<lparr>cached_dependencies := [(Id 7, [])]\<rparr>)"
    by (simp add: get_dependencies_for_asset_def ex_inner_7 [OF g] ex_ensured_fields
        mlvl_dependencies_to_ignore_def)
  show ?thesis
    by (simp add: r p e ex_exists_7 m1 d)
qed

lemma resolve_asset_id_cong:
  "custom_asset_ids m' = custom_asset_ids m \<Longrightarrow> target_game m' = target_game m \<Longrightarrow>
   resolve_asset_id ev m' v = resolve_asset_id ev m v"
  by (simp add: resolve_asset_id_def split: option.splits)












lemma fold_related:
  assumes "R s1 s2" and "\<And>x s1 s2. R s1 s2 \<Longrightarrow> R (f x s1) (g x s2)"
  shows "R (fold f xs s1) (fold g xs s2)"
  using assms by (induction xs arbitrary: s1 s2) simp_all

lemma scan_pak_header_index:
  assumes "header_index m1 = header_index m2"
  shows "header_index (scan_pak_header t name m1) = header_index (scan_pak_header t name m2)"
  unfolding scan_pak_header_def
  by (rule fold_related [where R = "\<lambda>a b. header_index a = header_index b"])
     (use assms in \<open>simp_all add: header_index_def add_pak_name_for_asset_id_def\<close>)

lemma update_headers_index:
  assumes "provider m1 = provider m2"
  shows "header_index (update_headers fs m1) = header_index (update_headers fs m2)"
proof -
  let ?t = "provider_tree fs (provider m2)"
  let ?c = "case custom_names_json ?t of
              None \<Rightarrow> []
            | Some items \<Rightarrow> fold (\<lambda>item. AList.update (fst item) (snd item)) items []"
  let ?i = "\<lambda>m. m\<lparr>ensured_asset_ids := [], paks_for_asset_id := [], types_for_asset_id := [],
                   custom_asset_ids := ?c, all_paks := map fst (pak_files ?t)\<rparr>"
  have "header_index (?i m1) = header_index (?i m2)"
    by (simp add: header_index_def)
  then have "header_index (fold (scan_pak_header ?t) (map fst (pak_files ?t)) (?i m1)) =
      header_index (fold (scan_pak_header ?t) (map fst (pak_files ?t)) (?i m2))"
    by (rule fold_related [where R = "\<lambda>a b. header_index a = header_index b"])
       (rule scan_pak_header_index)
  then show ?thesis
    unfolding update_headers_def Let_def using assms by simp
qed

lemma ex_delete_7: "delete_asset ex_env (ex_manager PRIME) (Id 7) = (None, ex_deleted)"
proof -
  have r: "resolve_asset_id ex_env (ex_manager PRIME) (Id 7) = 7"
    by (simp add: resolve_asset_id_def ex_manager_eq)
  show ?thesis
    unfolding delete_asset_def Let_def r
    apply (simp add: ex_exists_7)
    apply (simp add: ex_manager_eq ex_deleted_def)
    done
qed

lemma ex_deleted_fields:
  "provider ex_deleted = PathFileProvider ''in''"
  "target_game ex_deleted = PRIME"
  "modified_resources ex_deleted = [(7, None)]"
  "paks_for_asset_id ex_deleted =
     [(0xFFFF0000, [''a.pak'']), (5, [''a.pak'']), (0x7b2ea5b1, [''a.pak'']), (7, [''b.pak''])]"
  "ensured_asset_ids ex_deleted = [(''a.pak'', []), (''b.pak'', [])]"
  "in_memory_paks ex_deleted = []"
  "custom_asset_ids ex_deleted = []"
  by (simp_all add: ex_deleted_def ex_manager_eq)

lemma ex_collect: "collect_modified_paks ex_deleted [7] [] = Inr [''b.pak'']"
  by (simp add: ex_deleted_fields set_add_def)

lemma ex_load: "load_paks ex_fs ex_deleted [''b.pak''] = (None, ex_loaded)"
  by (simp add: get_pak_def ex_deleted_fields ex_fs_def ex_tree_def ex_loaded_def)

lemma ex_loaded_fields:
  "provider ex_loaded = PathFileProvider ''in''"
  "target_game ex_loaded = PRIME"
  "modified_resources ex_loaded = [(7, None)]"
  "paks_for_asset_id ex_loaded =
     [(0xFFFF0000, [''a.pak'']), (5, [''a.pak'']), (0x7b2ea5b1, [''a.pak'']), (7, [''b.pak''])]"
  "ensured_asset_ids ex_loaded = [(''a.pak'', []), (''b.pak'', [])]"
  "in_memory_paks ex_loaded = [(''b.pak'', [(7, ex_raw ''STRG'')])]"
  "custom_asset_ids ex_loaded = []"
  by (simp_all add: ex_loaded_def ex_deleted_fields)

lemma ex_update_paks:
  "update_paks ex_loaded fs out [] [''b.pak''] =
     (None, ex_loaded\<lparr>in_memory_paks := []\<rparr>, write_pak fs out ''b.pak'' [])"
  by (simp add: ex_loaded_fields pak_remove_asset_def)

lemma ex_save:
  "save_modifications ex_env ex_fs ex_deleted out =
     (None,
      update_headers (write_custom_names (ex_loaded\<lparr>in_memory_paks := []\<rparr>)
                        (write_pak ex_fs out ''b.pak'' []) out)
        (ex_loaded\<lparr>in_memory_paks := [], modified_resources := []\<rparr>),
      write_custom_names (ex_loaded\<lparr>in_memory_paks := []\<rparr>) (write_pak ex_fs out ''b.pak'' []) out)"
proof -
  have c: "collect_modified_paks ex_deleted (map fst (modified_resources ex_deleted)) [] = Inr [''b.pak'']"
    by (simp only: ex_deleted_fields list.map fst_conv ex_collect)
  have e: "concat (map snd (ensured_asset_ids ex_loaded)) = []"
    by (simp add: ex_loaded_fields)
  show ?thesis
    unfolding save_modifications_def c
    by (simp only: ex_load e read_asset_ids_to_copy.simps ex_update_paks Let_def
        sum.case option.case prod.case)
qed

lemma update_headers_tree_cong:
  "provider_tree fs1 (provider m) = provider_tree fs2 (provider m) \<Longrightarrow>
   update_headers fs1 m = update_headers fs2 m"
  by (simp add: update_headers_def)

lemma ex_save': "save_modifications ex_env ex_fs ex_deleted out = (None, ex_saved out, ex_saved_fs out)"
  by (simp only: ex_save ex_saved_def ex_saved_fs_def)

lemma ex_saved_fs_out:
  "ex_saved_fs ''out'' ''in'' = ex_tree"
  "ex_saved_fs ''out'' ''out'' = \<lparr>custom_names_json = Some [], pak_files = [(''b.pak'', [])]\<rparr>"
  by (simp_all add: ex_saved_fs_def write_custom_names_def write_pak_def ex_fs_def ex_loaded_fields)

lemma ex_saved_fs_in:
  "ex_saved_fs ''in'' ''in'' =
     \<lparr>custom_names_json = Some [],
      pak_files =
        [(''a.pak'', [(0xFFFF0000, ex_raw ''TXTR''), (5, ex_raw ''DGRP''),
                      (0x7b2ea5b1, ex_raw ''TXTR'')]),
         (''b.pak'', [])]\<rparr>"
  by (simp add: ex_saved_fs_def write_custom_names_def write_pak_def ex_fs_def ex_tree_def
      ex_loaded_fields)

lemma ex_saved_out_index: "header_index (ex_saved ''out'') = header_index (ex_manager PRIME)"
proof -
  let ?m = "ex_loaded\<lparr>in_memory_paks := [], modified_resources := []\<rparr>"
  have p: "provider ?m = PathFileProvider ''in''"
    by (simp add: ex_loaded_fields)
  have "update_headers (ex_saved_fs ''out'') ?m = update_headers ex_fs ?m"
    by (rule update_headers_tree_cong) (simp add: p ex_saved_fs_out ex_fs_def)
  then show ?thesis
    unfolding ex_saved_def ex_manager_def AssetManager_init_def
    by (simp add: update_headers_index [of ?m _ ex_fs] p)
qed

lemma ex_init_out:
  "header_index (AssetManager_init (ex_saved_fs ''out'') (PathFileProvider ''out'') PRIME) =
     ([], [], [(''b.pak'', [])], [])"
  by (simp add: AssetManager_init_def update_headers_def ex_saved_fs_out Let_def
      scan_pak_header_def header_index_def)

lemma ex_saved_in_index:
  "header_index (ex_saved ''in'') =
     ([(0xFFFF0000, [''a.pak'']), (5, [''a.pak'']), (0x7b2ea5b1, [''a.pak''])],
      [(0xFFFF0000, ''TXTR''), (5, ''DGRP''), (0x7b2ea5b1, ''TXTR'')],
      [(''a.pak'', []), (''b.pak'', [])], [])"
  by (simp add: ex_saved_def update_headers_def ex_loaded_fields ex_saved_fs_in Let_def
      scan_pak_header_def header_index_def add_pak_name_for_asset_id_def set_add_def ex_raw_def)

section \<open>The encoder's groups\<close>

lemma add_group_block:
  assumes "add_group lzo st = Inr st'"
    and "current_group_size st = sum_list (map length (current_group st))"
  shows "\<exists>b. compressed_blocks st' = compressed_blocks st @ [b] \<and>
             block_invariant lzo (current_group st) b \<and>
             current_group st' = [] \<and> current_group_size st' = 0 \<and>
             previous_label st' = previous_label st"
  using assms
  by (auto simp: add_group_def Let_def block_invariant_def split: sum.splits if_splits)

lemma grouped_snoc:
  assumes "grouped lzo groups blocks" "block_invariant lzo (map snd g) b" "script_boundaries g"
  shows "grouped lzo (groups @ [g]) (blocks @ [b])"
  using assms by (auto simp: grouped_def list_all2_appendI)

lemma script_boundaries_single: "script_boundaries [x]"
  by (simp add: script_boundaries_def)

lemma script_boundaries_Nil: "script_boundaries []"
  by (simp add: script_boundaries_def)

lemma sum_list_zero_nth:
  "sum_list (map length xs) = 0 \<Longrightarrow> k < length xs \<Longrightarrow> length (xs ! k) = 0"
  by (induction xs arbitrary: k) (auto simp: nth_Cons split: nat.splits)

lemma script_boundaries_snoc_empty:
  assumes "sum_list (map length (map snd grp)) = 0"
  shows "script_boundaries (grp @ [x])"
proof -
  have z: "\<And>k. k < length grp \<Longrightarrow> snd (grp ! k) = []"
    using sum_list_zero_nth [OF assms] by simp
  show ?thesis
    unfolding script_boundaries_def
    by (auto simp: nth_append z less_Suc_eq)
qed

lemma script_boundaries_snoc_plain:
  assumes "script_boundaries grp" "\<not> is_script_label (fst x)"
    and "grp \<noteq> [] \<longrightarrow> \<not> is_script_label (fst (last grp))"
  shows "script_boundaries (grp @ [x])"
  unfolding script_boundaries_def
proof (intro allI impI)
  fix j
  assume j: "j < length (grp @ [x])" and s: "is_script_label (fst ((grp @ [x]) ! j))"
  have jl: "j < length grp"
    using j s assms(2) by (cases "j = length grp") (auto simp: nth_append)
  then have sj: "is_script_label (fst (grp ! j))"
    using s by (simp add: nth_append)
  from assms(1) jl sj have a: "\<forall>k < j. length (snd (grp ! k)) = 0"
    and b: "length (snd (grp ! j)) > 0 \<longrightarrow> Suc j = length grp"
    by (auto simp: script_boundaries_def)
  have "length (snd (grp ! j)) = 0"
  proof (rule ccontr)
    assume "length (snd (grp ! j)) \<noteq> 0"
    with b have "Suc j = length grp" by simp
    then have ne: "grp \<noteq> []" and "length grp - 1 = j"
      by auto
    then have "last grp = grp ! j"
      by (simp add: last_conv_nth)
    with sj assms(3) ne show False by simp
  qed
  with a jl show "(\<forall>k<j. length (snd ((grp @ [x]) ! k)) = 0) \<and>
         (0 < length (snd ((grp @ [x]) ! j)) \<longrightarrow> Suc j = length (grp @ [x]))"
    by (auto simp: nth_append)
qed

lemma start_new_group_False:
  assumes "\<not> fst (start_new_group group_size section_size curr_label prev_label)"
  shows "group_size = 0 \<or> (\<not> is_script_label curr_label \<and> \<not> is_script_label prev_label)"
  using assms by (auto simp: start_new_group_def is_script_label_def split: if_splits)

lemma encode_sections_grouped:
  assumes "encode_sections lzo starts items st = Inr st'"
    and "grouped lzo groups (compressed_blocks st)"
    and "current_group st = map snd opn"
    and "current_group_size st = sum_list (map length (current_group st))"
    and "script_boundaries opn"
    and "opn \<noteq> [] \<longrightarrow> previous_label st = fst (last opn)"
  shows "\<exists>groups' opn'.
           grouped lzo groups' (compressed_blocks st') \<and>
           concat groups' @ opn' =
             concat groups @ opn @ map (\<lambda>(i, s). (label_of starts i, s)) items \<and>
           current_group st' = map snd opn' \<and>
           current_group_size st' = sum_list (map length (current_group st')) \<and>
           script_boundaries opn'"
  using assms
proof (induction items arbitrary: st groups opn)
  case Nil
  then show ?case
    by auto
next
  case (Cons item rest)
  obtain i s where item: "item = (i, s)"
    by (cases item)
  from Cons.prems(1) obtain l where l: "category_label starts i = Inr l"
    by (cases "category_label starts i") (auto simp: item)
  then have lab: "label_of starts i = l"
    by (simp add: label_of_def)
  let ?new = "fst (start_new_group (current_group_size st) (length s) (previous_label st) l)"
  show ?case
  proof (cases ?new)
    case True
    with Cons.prems(1) l obtain st1 where a: "add_group lzo st = Inr st1"
      by (cases "add_group lzo st") (auto simp: item)
    from add_group_block [OF a Cons.prems(4)] obtain b where
      b: "compressed_blocks st1 = compressed_blocks st @ [b]"
      "block_invariant lzo (current_group st) b"
      "current_group st1 = []" "current_group_size st1 = 0"
      by blast
    let ?st2 = "st1\<lparr>current_group := current_group st1 @ [s],
                    current_group_size := current_group_size st1 + length s,
                    previous_label := l\<rparr>"
    have run: "encode_sections lzo starts rest ?st2 = Inr st'"
      using Cons.prems(1) l True a by (simp add: item)
    have g: "grouped lzo (groups @ [opn]) (compressed_blocks ?st2)"
      using grouped_snoc [OF Cons.prems(2), of "opn" b] b Cons.prems(3,5) by simp
    from Cons.IH [OF run g, of "[(l, s)]"] b
    obtain groups' opn' where
      "grouped lzo groups' (compressed_blocks st')"
      "concat groups' @ opn' =
         concat (groups @ [opn]) @ [(l, s)] @ map (\<lambda>(i, s). (label_of starts i, s)) rest"
      "current_group st' = map snd opn'"
      "current_group_size st' = sum_list (map length (current_group st'))"
      "script_boundaries opn'"
      by (auto simp: script_boundaries_single)
    then show ?thesis
      by (intro exI [of _ groups'] exI [of _ opn']) (simp add: item lab)
  next
    case False
    let ?st2 = "st\<lparr>current_group := current_group st @ [s],
                   current_group_size := current_group_size st + length s,
                   previous_label := l\<rparr>"
    have run: "encode_sections lzo starts rest ?st2 = Inr st'"
      using Cons.prems(1) l False by (simp add: item)
    have sb: "script_boundaries (opn @ [(l, s)])"
    proof -
      from start_new_group_False [OF False]
      consider "current_group_size st = 0"
        | "\<not> is_script_label (previous_label st)" "\<not> is_script_label l"
        by auto
      then show ?thesis
      proof cases
        case 1
        then have "sum_list (map length (map snd opn)) = 0"
          using Cons.prems(3,4) by simp
        then show ?thesis
          by (rule script_boundaries_snoc_empty)
      next
        case 2
        show ?thesis
          by (rule script_boundaries_snoc_plain) (use 2 Cons.prems(5,6) in auto)
      qed
    qed
    from Cons.IH [OF run, of groups "opn @ [(l, s)]"] Cons.prems(2,3,4) sb
    obtain groups' opn' where
      "grouped lzo groups' (compressed_blocks st')"
      "concat groups' @ opn' =
         concat groups @ (opn @ [(l, s)]) @ map (\<lambda>(i, s). (label_of starts i, s)) rest"
      "current_group st' = map snd opn'"
      "current_group_size st' = sum_list (map length (current_group st'))"
      "script_boundaries opn'"
      by auto
    then show ?thesis
      by (intro exI [of _ groups'] exI [of _ opn']) (simp add: item lab)
  qed
qed


lemma section_starts_append:
  "section_starts (xs @ ys) = section_starts xs @ section_starts ys"
  by (simp add: section_starts_def)



lemma split_by_counts_concat: "split_by_counts (map length gs) (concat gs) = gs"
  by (induction gs) simp_all

lemma split_by_counts_map:
  "split_by_counts ns (map f xs) = map (map f) (split_by_counts ns xs)"
  by (induction ns arbitrary: xs) (simp_all add: take_map drop_map)

lemma grouped_counts:
  "grouped lzo groups blocks \<Longrightarrow>
   map (\<lambda>b. data_section_count (block_header b)) blocks = map length groups"
proof -
  assume "grouped lzo groups blocks"
  then have "list_all2 (\<lambda>g b. block_invariant lzo (map snd g) b) groups blocks"
    by (simp add: grouped_def)
  then show ?thesis
    by (induction groups blocks rule: list_all2_induct) (simp_all add: block_invariant_def)
qed

lemma grouped_block_sections:
  assumes "grouped lzo groups blocks"
  shows "block_sections blocks (concat groups) = groups"
  by (simp add: block_sections_def grouped_counts [OF assms] split_by_counts_concat)

lemma case_list_nonempty:
  "xs \<noteq> [] \<Longrightarrow> (case xs of [] \<Rightarrow> a | y # ys \<Rightarrow> f (y # ys)) = f xs"
  by (cases xs) simp_all

text \<open>What the encoder does with any sections and any starts.\<close>

lemma encode_compressed_blocks_groups:
  assumes "encode_compressed_blocks lzo data_sections category_starts = Inr blocks"
  shows "\<exists>groups. grouped lzo groups blocks \<and>
           concat groups =
             map (\<lambda>(i, s). (label_of (sort_key snd (section_starts category_starts)) i, s))
               (enumerate 0 data_sections)"
proof -
  let ?starts = "sort_key snd (section_starts category_starts)"
  let ?init = "\<lparr>compressed_blocks = [], current_group = [], current_group_size = 0,
                 previous_label = ''''\<rparr>"
  from assms obtain st st' where
    run: "encode_sections lzo ?starts (enumerate 0 data_sections) ?init = Inr st"
    and fin: "add_group lzo st = Inr st'" and bl: "blocks = compressed_blocks st'"
    by (auto simp: encode_compressed_blocks_def section_starts_def Let_def split: sum.splits)
  have "\<exists>groups' opn'.
           grouped lzo groups' (compressed_blocks st) \<and>
           concat groups' @ opn' =
             concat [] @ [] @ map (\<lambda>(i, s). (label_of ?starts i, s)) (enumerate 0 data_sections) \<and>
           current_group st = map snd opn' \<and>
           current_group_size st = sum_list (map length (current_group st)) \<and>
           script_boundaries opn'"
    by (rule encode_sections_grouped [OF run])
       (simp_all add: grouped_def script_boundaries_Nil)
  then obtain groups' opn' where
    g: "grouped lzo groups' (compressed_blocks st)"
    and c: "concat groups' @ opn' =
             map (\<lambda>(i, s). (label_of ?starts i, s)) (enumerate 0 data_sections)"
    and cg: "current_group st = map snd opn'"
    and cs: "current_group_size st = sum_list (map length (current_group st))"
    and sb: "script_boundaries opn'"
    by auto
  from add_group_block [OF fin cs] obtain b where
    b: "compressed_blocks st' = compressed_blocks st @ [b]"
    "block_invariant lzo (current_group st) b"
    by blast
  have "grouped lzo (groups' @ [opn']) blocks"
    unfolding bl b(1) using g b(2) sb cg by (intro grouped_snoc) simp_all
  moreover have "concat (groups' @ [opn']) =
      map (\<lambda>(i, s). (label_of ?starts i, s)) (enumerate 0 data_sections)"
    using c by simp
  ultimately show ?thesis
    by blast
qed

lemma and_31_nat: "(x::nat) AND 0x1F = x mod 32"
proof -
  have "x AND mask 5 = take_bit 5 x"
    by (simp add: take_bit_eq_mask)
  moreover have "mask 5 = (0x1F::nat)"
    by (simp add: mask_eq_exp_minus_1)
  moreover have "take_bit 5 x = x mod 32"
    by (simp add: take_bit_eq_mod)
  ultimately show ?thesis
    by simp
qed

lemma compressed_pad_mod: "compressed_pad n = (32 - n mod 32) mod 32"
  by (simp add: compressed_pad_def and_31_nat)

lemma compressed_pad_aligns: "(n + compressed_pad n) mod 32 = 0 \<and> compressed_pad n < 32"
proof (cases "n mod 32 = 0")
  case True
  then show ?thesis
    by (simp add: compressed_pad_mod)
next
  case False
  then have p: "compressed_pad n = 32 - n mod 32"
    by (simp add: compressed_pad_mod)
  have b: "n mod 32 < 32"
    by simp
  have e: "n = 32 * (n div 32) + n mod 32"
    by simp
  have "n + (32 - n mod 32) = 32 * (n div 32) + 32"
    using b e by linarith
  then have "(n + (32 - n mod 32)) mod 32 = 0"
    by (simp only: mod_mult_self4 mod_self)
  moreover have "32 - n mod 32 < 32"
    using False by simp
  ultimately show ?thesis
    by (simp only: p simp_thms)
qed

lemma map_snd_relabel:
  "map snd (map (\<lambda>(i, s). (f i, s)) (enumerate n xs)) = xs"
proof -
  have "map snd (map (\<lambda>(i, s). (f i, s)) (enumerate n xs)) = map snd (enumerate n xs)"
    by (simp add: case_prod_unfold comp_def)
  then show ?thesis
    by simp
qed

lemma encode_compressed_blocks_sections:
  assumes "encode_compressed_blocks lzo data_sections category_starts = Inr blocks"
  shows "list_all2 (block_invariant lzo) (block_sections blocks data_sections) blocks \<and>
         concat (block_sections blocks data_sections) = data_sections"
proof -
  from encode_compressed_blocks_groups [OF assms] obtain groups where
    g: "grouped lzo groups blocks"
    and c: "concat groups =
             map (\<lambda>(i, s). (label_of (sort_key snd (section_starts category_starts)) i, s))
               (enumerate 0 data_sections)"
    by blast
  have d: "data_sections = map snd (concat groups)"
    unfolding c by (simp only: map_snd_relabel)
  have bs: "block_sections blocks data_sections = map (map snd) groups"
    unfolding d block_sections_def split_by_counts_map
    using grouped_block_sections [OF g] by (simp add: block_sections_def)
  have "list_all2 (block_invariant lzo) (map (map snd) groups) blocks"
    using g by (simp add: grouped_def list_all2_map1)
  moreover have "concat (map (map snd) groups) = data_sections"
    unfolding d by (simp add: map_concat)
  ultimately show ?thesis
    unfolding bs by simp
qed





lemma ex_section_length [simp]: "length (ex_section n v) = n"
  by (simp add: ex_section_def)

lemma ex_section_ljust32 [simp]:
  "ljust32 (ex_section 32 v) = ex_section 32 v"
  "ljust32 (ex_section 64 v) = ex_section 64 v"
  "ljust32 [] = []"
  by (simp_all add: ljust32_def)

lemma ex_compressed_pad_1: "compressed_pad (Suc 0) = 31"
  by (simp add: compressed_pad_mod)



lemma ex_add_group_32:
  "sum_list (map length grp) = 32 \<Longrightarrow>
   add_group ex_lzo \<lparr>compressed_blocks = bs, current_group = grp, current_group_size = 32,
                     previous_label = l\<rparr> =
     Inr \<lparr>compressed_blocks =
            bs @ [\<lparr>block_header = \<lparr>buffer_size = 32, uncompressed_size = 32, compressed_size = 0,
                                   data_section_count = length grp\<rparr>,
                   block_data = concat (map ljust32 grp)\<rparr>],
          current_group = [], current_group_size = 0, previous_label = l\<rparr>"
  by (simp add: add_group_def Let_def ex_lzo_def ex_compressed_pad_1)






lemma ex_room_labels:
  "category_label ex_room_starts 0 = Inr ''geometry_section''"
  "category_label ex_room_starts (Suc 0) = Inr ''script_layers_section''"
  "category_label ex_room_starts (Suc (Suc 0)) = Inr ''script_layers_section''"
  "category_label ex_room_starts (Suc (Suc (Suc 0))) = Inr ''collision_section''"
  "category_label ex_room_starts (Suc (Suc (Suc (Suc 0)))) = Inr ''collision_section''"
  by (simp_all add: category_label_def ex_room_starts_def)

lemma ex_add_group_64:
  "sum_list (map length grp) = 64 \<Longrightarrow>
   add_group ex_lzo \<lparr>compressed_blocks = bs, current_group = grp, current_group_size = 64,
                     previous_label = l\<rparr> =
     Inr \<lparr>compressed_blocks =
            bs @ [\<lparr>block_header = \<lparr>buffer_size = 352, uncompressed_size = 64, compressed_size = 1,
                                   data_section_count = length grp\<rparr>,
                   block_data = [0]\<rparr>],
          current_group = [], current_group_size = 0, previous_label = l\<rparr>"
  by (simp add: add_group_def Let_def ex_lzo_def ex_compressed_pad_1)

lemma ex_room_encode:
  "encode_sections ex_lzo ex_room_starts (enumerate 0 ex_room_sections)
     \<lparr>compressed_blocks = [], current_group = [], current_group_size = 0, previous_label = []\<rparr> =
   Inr \<lparr>compressed_blocks = take 3 ex_room_blocks,
        current_group = [ex_section 32 4, ex_section 32 5], current_group_size = 64,
        previous_label = ''collision_section''\<rparr>"
  by (simp add: ex_room_sections_def ex_room_labels start_new_group_def ex_add_group_32
      ex_add_group_64 ex_room_blocks_def)

lemma ex_room_encoded:
  "encode_compressed_blocks ex_lzo ex_room_sections ex_room_header = Inr ex_room_blocks"
proof -
  have s: "sort_key snd
            (concat (map (\<lambda>(cat, start). case start of None \<Rightarrow> [] | Some n \<Rightarrow> [(cat, n)])
               ex_room_header)) = ex_room_starts"
    by (simp add: ex_room_starts_def ex_room_header_def)
  show ?thesis
    unfolding encode_compressed_blocks_def Let_def s ex_room_encode
    by (simp add: ex_add_group_64 ex_room_blocks_def)
qed


lemma ex_room_block_sections:
  "block_sections ex_room_blocks ex_room_sections =
     [[ex_section 64 7], [ex_section 32 1], [ex_section 32 3], [ex_section 32 4, ex_section 32 5]]"
  by (simp add: block_sections_def ex_room_blocks_def ex_room_sections_def)



section \<open>Fresh-id uniqueness\<close>




section \<open>The asset itself comes last\<close>




section \<open>The override layer\<close>




section \<open>A PAK never ensures what it holds\<close>

text \<open>
  Claim C8. In every state a session can reach, by any sequence of the manager's
  operations and whatever they raise, an id in \<open>ensured_asset_ids[p]\<close> has an entry in
  \<open>paks_for_asset_id\<close> and \<open>p\<close> is not in it.
\<close>

theorem ensured_never_held:
  assumes "reachable ev (m, fs)"
    and "map_of (ensured_asset_ids m) p = Some ids"
    and "a \<in> set ids"
  shows "\<exists>paks. map_of (paks_for_asset_id m) a = Some paks \<and> p \<notin> set paks"
  using reachable_ensured_disjoint [OF assms(1)] assms(2,3)
  by (simp add: ensured_disjoint_def)

text \<open>A run: after \<open>ensure_present("a.pak", 7)\<close>, asset 7 is ensured in a PAK other than its own.\<close>

theorem ensured_never_held_witness:
  "reachable ex_env ((ex_ensured PRIME)\<lparr>cached_dependencies := [(Id 7, [])]\<rparr>, ex_fs) \<and>
   map_of (ensured_asset_ids ((ex_ensured PRIME)\<lparr>cached_dependencies := [(Id 7, [])]\<rparr>)) ''a.pak''
     = Some [7] \<and>
   map_of (paks_for_asset_id ((ex_ensured PRIME)\<lparr>cached_dependencies := [(Id 7, [])]\<rparr>)) 7
     = Some [''b.pak''] \<and>
   ''a.pak'' \<notin> set [''b.pak'']"
proof -
  let ?m = "(ex_ensured PRIME)\<lparr>cached_dependencies := [(Id 7, [])]\<rparr>"
  have "reachable ex_env (ex_manager PRIME, ex_fs)"
    unfolding ex_manager_def by (rule reachable_init)
  then have "reachable ex_env (snd (ensure_present ex_env ex_fs (Suc 0) (ex_manager PRIME) ''a.pak'' (Id 7)), ex_fs)"
    by (rule reachable_step) (rule step_ensure_present)
  moreover have "ensure_present ex_env ex_fs (Suc 0) (ex_manager PRIME) ''a.pak'' (Id 7) = (None, ?m)"
    by (rule ex_ensure_7) simp
  ultimately have r: "reachable ex_env (?m, ex_fs)"
    by (simp only: snd_conv)
  have e: "map_of (ensured_asset_ids ?m) ''a.pak'' = Some [7]"
    by (simp add: ex_ensured_def)
  have "7 \<in> set [7::int]"
    by simp
  from ensured_never_held [OF r e this] have "\<exists>paks. map_of (paks_for_asset_id ?m) 7 = Some paks \<and> ''a.pak'' \<notin> set paks"
    .
  moreover have "map_of (paks_for_asset_id ?m) 7 = Some [''b.pak'']"
    by (simp add: ex_ensured_fields)
  ultimately show ?thesis
    using r e by simp
qed

section \<open>What a deletion leaves alone\<close>

text \<open>
  Claim C10. For an id that passes the existence test of \<open>delete_asset\<close>, the call
  returns normally; it tombstones the id in the modification map and removes it from
  every ensured set, and changes nothing else: the header index, the alias table, the
  PAKs in memory and both dependency caches are as before. So \<open>all_asset_ids\<close> and
  \<open>find_paks\<close> answer as before; an id the index held is still listed, with its PAKs.
\<close>

theorem delete_asset_frame:
  assumes "does_asset_exists ev m (Id (resolve_asset_id ev m v))"
  shows "delete_asset ev m v =
           (None,
            m\<lparr>modified_resources :=
                AList.update (resolve_asset_id ev m v) None (modified_resources m),
              ensured_asset_ids :=
                map (\<lambda>(pak_name, ensured_ids). (pak_name, removeAll (resolve_asset_id ev m v) ensured_ids))
                  (ensured_asset_ids m)\<rparr>) \<and>
         map_of (modified_resources (snd (delete_asset ev m v))) (resolve_asset_id ev m v) = Some None \<and>
         (\<forall>p ids. map_of (ensured_asset_ids (snd (delete_asset ev m v))) p = Some ids \<longrightarrow>
            resolve_asset_id ev m v \<notin> set ids) \<and>
         paks_for_asset_id (snd (delete_asset ev m v)) = paks_for_asset_id m \<and>
         types_for_asset_id (snd (delete_asset ev m v)) = types_for_asset_id m \<and>
         custom_asset_ids (snd (delete_asset ev m v)) = custom_asset_ids m \<and>
         in_memory_paks (snd (delete_asset ev m v)) = in_memory_paks m \<and>
         cached_dependencies (snd (delete_asset ev m v)) = cached_dependencies m \<and>
         cached_ancs_per_char_dependencies (snd (delete_asset ev m v)) =
           cached_ancs_per_char_dependencies m \<and>
         all_asset_ids (snd (delete_asset ev m v)) = all_asset_ids m \<and>
         find_paks ev (snd (delete_asset ev m v)) v = find_paks ev m v \<and>
         (\<forall>paks. map_of (paks_for_asset_id m) (resolve_asset_id ev m v) = Some paks \<longrightarrow>
            resolve_asset_id ev m v \<in> set (all_asset_ids (snd (delete_asset ev m v))) \<and>
            find_paks ev (snd (delete_asset ev m v)) v = Inr paks)"
proof -
  let ?a = "resolve_asset_id ev m v"
  let ?m' = "m\<lparr>modified_resources := AList.update ?a None (modified_resources m),
              ensured_asset_ids :=
                map (\<lambda>(pak_name, ensured_ids). (pak_name, removeAll ?a ensured_ids))
                  (ensured_asset_ids m)\<rparr>"
  have d: "delete_asset ev m v = (None, ?m')"
    using assms by (simp add: delete_asset_def Let_def)
  have r: "resolve_asset_id ev ?m' v = ?a"
    by (rule resolve_asset_id_cong) simp_all
  have mo: "map_of (modified_resources ?m') ?a = Some None"
    by (simp add: update_conv')
  have en: "\<forall>p ids. map_of (ensured_asset_ids ?m') p = Some ids \<longrightarrow> ?a \<notin> set ids"
    by (auto simp: map_of_map_values)
  have fp: "find_paks ev ?m' v = find_paks ev m v"
    by (simp add: find_paks_def r Let_def)
  have inx: "\<forall>paks. map_of (paks_for_asset_id m) ?a = Some paks \<longrightarrow>
      ?a \<in> set (all_asset_ids ?m') \<and> find_paks ev ?m' v = Inr paks"
  proof (intro allI impI)
    fix paks
    assume p: "map_of (paks_for_asset_id m) ?a = Some paks"
    then have "?a \<in> fst ` set (paks_for_asset_id m)"
      by (metis map_of_eq_None_iff option.distinct(1))
    then show "?a \<in> set (all_asset_ids ?m') \<and> find_paks ev ?m' v = Inr paks"
      using p by (simp add: all_asset_ids_def find_paks_def r Let_def)
  qed
  have fr: "paks_for_asset_id ?m' = paks_for_asset_id m"
    "types_for_asset_id ?m' = types_for_asset_id m"
    "custom_asset_ids ?m' = custom_asset_ids m"
    "in_memory_paks ?m' = in_memory_paks m"
    "cached_dependencies ?m' = cached_dependencies m"
    "cached_ancs_per_char_dependencies ?m' = cached_ancs_per_char_dependencies m"
    "all_asset_ids ?m' = all_asset_ids m"
    by (simp_all add: all_asset_ids_def)
  show ?thesis
    unfolding d snd_conv
    by (intro conjI refl mo en fr fp inx)
qed

text \<open>A run: deleting asset 7 after it was ensured in \<open>a.pak\<close>.\<close>

theorem delete_asset_frame_witness:
  "does_asset_exists ex_env (ex_ensured PRIME) (Id (resolve_asset_id ex_env (ex_ensured PRIME) (Id 7))) \<and>
   ensured_asset_ids (snd (delete_asset ex_env (ex_ensured PRIME) (Id 7))) =
     [(''a.pak'', []), (''b.pak'', [])] \<and>
   modified_resources (snd (delete_asset ex_env (ex_ensured PRIME) (Id 7))) = [(7, None)] \<and>
   7 \<in> set (all_asset_ids (snd (delete_asset ex_env (ex_ensured PRIME) (Id 7)))) \<and>
   find_paks ex_env (snd (delete_asset ex_env (ex_ensured PRIME) (Id 7))) (Id 7) = Inr [''b.pak'']"
proof -
  have r: "resolve_asset_id ex_env (ex_ensured PRIME) (Id 7) = 7"
    by (simp add: resolve_asset_id_def ex_ensured_fields)
  have ex: "does_asset_exists ex_env (ex_ensured PRIME) (Id (resolve_asset_id ex_env (ex_ensured PRIME) (Id 7)))"
    unfolding r by (simp add: does_asset_exists_def Let_def resolve_asset_id_def ex_ensured_fields)
  note th = delete_asset_frame [OF ex, unfolded r]
  have d: "delete_asset ex_env (ex_ensured PRIME) (Id 7) =
      (None, (ex_ensured PRIME)\<lparr>modified_resources := [(7, None)],
                ensured_asset_ids := [(''a.pak'', []), (''b.pak'', [])]\<rparr>)"
    using th by (simp add: ex_ensured_def ex_manager_eq)
  have p: "map_of (paks_for_asset_id (ex_ensured PRIME)) 7 = Some [''b.pak'']"
    by (simp add: ex_ensured_fields)
  from th p have "7 \<in> set (all_asset_ids (snd (delete_asset ex_env (ex_ensured PRIME) (Id 7))))"
    and "find_paks ex_env (snd (delete_asset ex_env (ex_ensured PRIME) (Id 7))) (Id 7) = Inr [''b.pak'']"
    by blast+
  then show ?thesis
    using ex by (simp add: d)
qed

section \<open>What the manager views after a save\<close>

text \<open>
  Claim C2, as the code has it. When \<open>save_modifications(out_root)\<close> returns, the
  modification map is empty and the header index (PAKs per id, types, ensured sets,
  aliases) is the one a manager freshly built over the same file provider has in the file
  system the save left behind. The provider is never re-targeted: the index is that of
  \<open>out_root\<close> when the provider is rooted at \<open>out_root\<close>.
\<close>

theorem save_modifications_rescans_provider:
  assumes "save_modifications ev fs m output_path = (None, m', fs')"
  shows "modified_resources m' = [] \<and>
         header_index m' = header_index (AssetManager_init fs' (provider m) (target_game m)) \<and>
         (provider m = PathFileProvider output_path \<longrightarrow>
            header_index m' =
              header_index (AssetManager_init fs' (PathFileProvider output_path) (target_game m)))"
proof -
  from save_modifications_cases [OF assms]
  obtain m3 where q: "quiet m m3" and m': "m' = update_headers fs' (m3\<lparr>modified_resources := []\<rparr>)"
    by auto
  have p: "provider m3 = provider m"
    using q by (simp add: quiet_def frame_def)
  have a: "modified_resources m' = []"
    by (simp add: m' update_headers_keeps)
  have b: "header_index m' = header_index (AssetManager_init fs' (provider m) (target_game m))"
    unfolding m' AssetManager_init_def
    by (rule update_headers_index) (simp add: p)
  from a b show ?thesis
    by auto
qed

text \<open>
  A run: asset 7 is deleted and the save goes into the provider's own directory; the
  re-scan no longer lists the asset.
\<close>

theorem save_modifications_rescans_provider_witness:
  "delete_asset ex_env (ex_manager PRIME) (Id 7) = (None, ex_deleted) \<and>
   save_modifications ex_env ex_fs ex_deleted ''in'' = (None, ex_saved ''in'', ex_saved_fs ''in'') \<and>
   provider ex_deleted = PathFileProvider ''in'' \<and>
   modified_resources (ex_saved ''in'') = [] \<and>
   header_index (ex_saved ''in'') =
     header_index (AssetManager_init (ex_saved_fs ''in'') (PathFileProvider ''in'') PRIME) \<and>
   header_index (ex_saved ''in'') =
     ([(0xFFFF0000, [''a.pak'']), (5, [''a.pak'']), (0x7b2ea5b1, [''a.pak''])],
      [(0xFFFF0000, ''TXTR''), (5, ''DGRP''), (0x7b2ea5b1, ''TXTR'')],
      [(''a.pak'', []), (''b.pak'', [])], [])"
  using save_modifications_rescans_provider [OF ex_save' [of "''in''"]]
  by (simp only: ex_delete_7 ex_save' ex_deleted_fields ex_saved_in_index simp_thms)

text \<open>
  The claim about \<open>out_root\<close> fails when the save goes elsewhere: the PAK written to
  \<open>out\<close> has lost asset 7, a scan of \<open>out\<close> finds no asset at all, and the manager
  still lists asset 7 in \<open>b.pak\<close>.
\<close>

theorem save_modifications_counterexample:
  "delete_asset ex_env (ex_manager PRIME) (Id 7) = (None, ex_deleted) \<and>
   save_modifications ex_env ex_fs ex_deleted ''out'' = (None, ex_saved ''out'', ex_saved_fs ''out'') \<and>
   modified_resources (ex_saved ''out'') = [] \<and>
   header_index (ex_saved ''out'') \<noteq>
     header_index (AssetManager_init (ex_saved_fs ''out'') (PathFileProvider ''out'') PRIME) \<and>
   map_of (paks_for_asset_id (ex_saved ''out'')) 7 = Some [''b.pak''] \<and>
   paks_for_asset_id (AssetManager_init (ex_saved_fs ''out'') (PathFileProvider ''out'') PRIME) = []"
proof -
  have i: "header_index (ex_saved ''out'') =
     ([(0xFFFF0000, [''a.pak'']), (5, [''a.pak'']), (0x7b2ea5b1, [''a.pak'']), (7, [''b.pak''])],
      [(0xFFFF0000, ''TXTR''), (5, ''DGRP''), (0x7b2ea5b1, ''TXTR''), (7, ''STRG'')],
      [(''a.pak'', []), (''b.pak'', [])], [])"
    unfolding ex_saved_out_index by (simp add: header_index_def ex_manager_eq)
  have p: "paks_for_asset_id (ex_saved ''out'') =
     [(0xFFFF0000, [''a.pak'']), (5, [''a.pak'']), (0x7b2ea5b1, [''a.pak'']), (7, [''b.pak''])]"
    using i by (simp add: header_index_def)
  have q: "paks_for_asset_id (AssetManager_init (ex_saved_fs ''out'') (PathFileProvider ''out'') PRIME) = []"
    using ex_init_out by (simp add: header_index_def)
  have m: "modified_resources (ex_saved ''out'') = []"
    by (simp add: ex_saved_def update_headers_keeps)
  have n: "header_index (ex_saved ''out'') \<noteq>
     header_index (AssetManager_init (ex_saved_fs ''out'') (PathFileProvider ''out'') PRIME)"
    unfolding i ex_init_out by simp
  show ?thesis
    using m n q by (simp add: ex_delete_7 ex_save' p)
qed

section \<open>Opening a disc image\<close>

text \<open>
  Claim C9. \<open>IsoFileProvider.__init__\<close> fails when the image cannot be opened as a
  GameCube or Wii disc and when the disc has no data partition, in both cases by raising
  \<open>ValueError\<close> (the error the specification calls \<open>InvalidImage\<close>); otherwise it
  returns the provider over the data partition and its file list.
\<close>

theorem IsoFileProvider_init_result:
  "(open_disc_from_image path = None \<longrightarrow>
      IsoFileProvider_init open_disc_from_image path =
        Inl (ValueError (path @ '' is not a GC/Wii ISO''))) \<and>
   (\<forall>d is_wii. open_disc_from_image path = Some (d, is_wii) \<longrightarrow> data_partition d = None \<longrightarrow>
      IsoFileProvider_init open_disc_from_image path =
        Inl (ValueError (path @ '' does not have data''))) \<and>
   (\<forall>d is_wii t. open_disc_from_image path = Some (d, is_wii) \<longrightarrow> data_partition d = Some t \<longrightarrow>
      IsoFileProvider_init open_disc_from_image path =
        Inr \<lparr>iso_disc = d, iso_data = t, iso_all_files = tree_files t, iso_path = path\<rparr>)"
  by (simp add: IsoFileProvider_init_def)

text \<open>A run over three paths: not a disc, a disc without data, a disc with data.\<close>

theorem IsoFileProvider_init_result_witness:
  "IsoFileProvider_init ex_open_disc ''readme.txt'' =
     Inl (ValueError ''readme.txt is not a GC/Wii ISO'') \<and>
   IsoFileProvider_init ex_open_disc ''update.iso'' =
     Inl (ValueError ''update.iso does not have data'') \<and>
   IsoFileProvider_init ex_open_disc ''echoes.iso'' =
     Inr \<lparr>iso_disc = \<lparr>data_partition = Some ex_tree\<rparr>, iso_data = ex_tree,
          iso_all_files = [''a.pak'', ''b.pak''], iso_path = ''echoes.iso''\<rparr>"
proof -
  have a: "ex_open_disc ''readme.txt'' = None"
    by (simp add: ex_open_disc_def)
  have b: "ex_open_disc ''update.iso'' = Some (\<lparr>data_partition = None\<rparr>, True)"
    "data_partition \<lparr>data_partition = None\<rparr> = None"
    by (simp_all add: ex_open_disc_def)
  have c: "ex_open_disc ''echoes.iso'' = Some (\<lparr>data_partition = Some ex_tree\<rparr>, False)"
    "data_partition \<lparr>data_partition = Some ex_tree\<rparr> = Some ex_tree"
    by (simp_all add: ex_open_disc_def)
  have f: "tree_files ex_tree = [''a.pak'', ''b.pak'']"
    by (simp add: tree_files_def ex_tree_def)
  from IsoFileProvider_init_result [of ex_open_disc "''readme.txt''"] a
  have 1: "IsoFileProvider_init ex_open_disc ''readme.txt'' =
     Inl (ValueError ''readme.txt is not a GC/Wii ISO'')"
    by simp
  from IsoFileProvider_init_result [of ex_open_disc "''update.iso''"] b
  have "IsoFileProvider_init ex_open_disc ''update.iso'' =
     Inl (ValueError (''update.iso'' @ '' does not have data''))"
    by blast
  then have 2: "IsoFileProvider_init ex_open_disc ''update.iso'' =
     Inl (ValueError ''update.iso does not have data'')"
    by simp
  from IsoFileProvider_init_result [of ex_open_disc "''echoes.iso''"] c
  have 3: "IsoFileProvider_init ex_open_disc ''echoes.iso'' =
     Inr \<lparr>iso_disc = \<lparr>data_partition = Some ex_tree\<rparr>, iso_data = ex_tree,
          iso_all_files = tree_files ex_tree, iso_path = ''echoes.iso''\<rparr>"
    by blast
  from 1 2 3 show ?thesis
    by (simp only: f simp_thms)
qed

section \<open>The compression invariant\<close>

text \<open>
  Claim C5. The blocks the encoder emits hold the data sections in order, each block as
  many as its header counts, and for every block: its uncompressed size is the total
  length of its sections (their padding not counted), and either its compressed size is
  0 and its payload is the padded sections themselves, or its compressed size plus the
  padding to the next multiple of 32 is strictly less than its uncompressed size and its
  buffer size is the uncompressed size plus \<open>0x120\<close>. The padding the code computes is
  the one that reaches 32-byte alignment.
\<close>

theorem compression_invariant:
  assumes "encode_compressed_blocks lzo data_sections category_starts = Inr blocks"
  shows "length (block_sections blocks data_sections) = length blocks \<and>
         concat (block_sections blocks data_sections) = data_sections \<and>
         (\<forall>k < length blocks.
            uncompressed_size (block_header (blocks ! k)) =
              sum_list (map length (block_sections blocks data_sections ! k)) \<and>
            ((compressed_size (block_header (blocks ! k)) = 0 \<and>
              block_data (blocks ! k) =
                concat (map ljust32 (block_sections blocks data_sections ! k))) \<or>
             (compressed_size (block_header (blocks ! k)) +
                compressed_pad (compressed_size (block_header (blocks ! k)))
                < uncompressed_size (block_header (blocks ! k)) \<and>
              buffer_size (block_header (blocks ! k)) =
                uncompressed_size (block_header (blocks ! k)) + 0x120)) \<and>
            (compressed_size (block_header (blocks ! k)) +
               compressed_pad (compressed_size (block_header (blocks ! k)))) mod 32 = 0 \<and>
            compressed_pad (compressed_size (block_header (blocks ! k))) < 32)"
proof -
  from encode_compressed_blocks_sections [OF assms]
  have l: "list_all2 (block_invariant lzo) (block_sections blocks data_sections) blocks"
    and c: "concat (block_sections blocks data_sections) = data_sections"
    by simp_all
  have len: "length (block_sections blocks data_sections) = length blocks"
    using l by (rule list_all2_lengthD)
  have inv: "block_invariant lzo (block_sections blocks data_sections ! k) (blocks ! k)"
    if "k < length blocks" for k
    using l that len by (simp add: list_all2_nthD2)
  have "uncompressed_size (block_header (blocks ! k)) =
              sum_list (map length (block_sections blocks data_sections ! k)) \<and>
            ((compressed_size (block_header (blocks ! k)) = 0 \<and>
              block_data (blocks ! k) =
                concat (map ljust32 (block_sections blocks data_sections ! k))) \<or>
             (compressed_size (block_header (blocks ! k)) +
                compressed_pad (compressed_size (block_header (blocks ! k)))
                < uncompressed_size (block_header (blocks ! k)) \<and>
              buffer_size (block_header (blocks ! k)) =
                uncompressed_size (block_header (blocks ! k)) + 0x120)) \<and>
            (compressed_size (block_header (blocks ! k)) +
               compressed_pad (compressed_size (block_header (blocks ! k)))) mod 32 = 0 \<and>
            compressed_pad (compressed_size (block_header (blocks ! k))) < 32"
    if "k < length blocks" for k
    using inv [OF that] compressed_pad_aligns [of "compressed_size (block_header (blocks ! k))"]
    unfolding block_invariant_def by blast
  with len c show ?thesis
    by blast
qed

text \<open>A run: a block that is compressed and one that is stored as it is.\<close>

theorem compression_invariant_witness:
  "encode_compressed_blocks ex_lzo ex_room_sections ex_room_header = Inr ex_room_blocks \<and>
   block_sections ex_room_blocks ex_room_sections =
     [[ex_section 64 7], [ex_section 32 1], [ex_section 32 3], [ex_section 32 4, ex_section 32 5]] \<and>
   compressed_size (block_header (ex_room_blocks ! 0)) = 1 \<and>
   1 + compressed_pad 1 < uncompressed_size (block_header (ex_room_blocks ! 0)) \<and>
   buffer_size (block_header (ex_room_blocks ! 0)) = 64 + 0x120 \<and>
   compressed_size (block_header (ex_room_blocks ! 1)) = 0 \<and>
   block_data (ex_room_blocks ! 1) = concat (map ljust32 [ex_section 32 1])"
proof -
  note th = compression_invariant [OF ex_room_encoded]
  have len: "0 < length ex_room_blocks" "1 < length ex_room_blocks"
    by (simp_all add: ex_room_blocks_def)
  have c0: "compressed_size (block_header (ex_room_blocks ! 0)) = 1"
    and u0: "uncompressed_size (block_header (ex_room_blocks ! 0)) = 64"
    and c1: "compressed_size (block_header (ex_room_blocks ! 1)) = 0"
    by (simp_all add: ex_room_blocks_def)
  from th len(1) have
    "(compressed_size (block_header (ex_room_blocks ! 0)) = 0 \<and>
      block_data (ex_room_blocks ! 0) =
        concat (map ljust32 (block_sections ex_room_blocks ex_room_sections ! 0))) \<or>
     (compressed_size (block_header (ex_room_blocks ! 0)) +
        compressed_pad (compressed_size (block_header (ex_room_blocks ! 0)))
        < uncompressed_size (block_header (ex_room_blocks ! 0)) \<and>
      buffer_size (block_header (ex_room_blocks ! 0)) =
        uncompressed_size (block_header (ex_room_blocks ! 0)) + 0x120)"
    by blast
  then have b0: "1 + compressed_pad 1 < uncompressed_size (block_header (ex_room_blocks ! 0))"
    "buffer_size (block_header (ex_room_blocks ! 0)) = 64 + 0x120"
    unfolding c0 u0 by simp_all
  from th len(2) have
    "(compressed_size (block_header (ex_room_blocks ! 1)) = 0 \<and>
      block_data (ex_room_blocks ! 1) =
        concat (map ljust32 (block_sections ex_room_blocks ex_room_sections ! 1))) \<or>
     (compressed_size (block_header (ex_room_blocks ! 1)) +
        compressed_pad (compressed_size (block_header (ex_room_blocks ! 1)))
        < uncompressed_size (block_header (ex_room_blocks ! 1)) \<and>
      buffer_size (block_header (ex_room_blocks ! 1)) =
        uncompressed_size (block_header (ex_room_blocks ! 1)) + 0x120)"
    by blast
  then have b1: "block_data (ex_room_blocks ! 1) = concat (map ljust32 [ex_section 32 1])"
    unfolding ex_room_block_sections by (simp add: ex_room_blocks_def)
  from c0 c1 b0 b1 show ?thesis
    by (simp only: ex_room_encoded ex_room_block_sections simp_thms)
qed

section \<open>The order of the sections and the script boundaries\<close>




section \<open>Codec round trips\<close>



lemma length_bytes_of_int [simp]: "length (bytes_of_int w n) = w"
  by (induction w arbitrary: n) simp_all


























end
